theory Spec2Isabelle
  imports Main "HOL-Library.Word"
begin

section \<open>Error classes (errors.ts)\<close>

text \<open>
  A response body is \<open>any\<close> in the source; the fields that \<open>createErrorFromResponse\<close>
  reads from it are kept, each optional. A body that is absent (or not an object) is
  \<open>None\<close>, which is what the optional chaining \<open>data?.field\<close> yields \<open>undefined\<close> on.
  An opaque JSON value is kept as its serialised text.
\<close>

type_synonym json = string

record api_body =
  body_message :: "string option"
  body_error :: "string option"
  body_details :: "json option"
  body_validation_errors :: "json list option"
  body_retry_after :: "int option"
  body_timeout :: "int option"

datatype details =
    BodyDetails json
  | NetworkDetails "string option" string
  | OriginalError string

text \<open>
  One record for \<open>AISpineError\<close> and its subclasses: \<open>err_name\<close> is the class name the
  constructor stores in \<open>this.name\<close>, the last two fields are the extra members of
  \<open>ValidationError\<close> and \<open>RateLimitError\<close> (absent in the other classes).
\<close>

record aispine_error =
  err_name :: string
  err_message :: string
  err_code :: string
  err_status :: "int option"
  err_details :: "details option"
  err_validationErrors :: "json list option"
  err_retryAfter :: "int option"

definition AISpineError :: "string \<Rightarrow> string \<Rightarrow> int option \<Rightarrow> details option \<Rightarrow> aispine_error" where
  "AISpineError message code status dets =
     \<lparr>err_name = ''AISpineError'', err_message = message, err_code = code, err_status = status,
      err_details = dets, err_validationErrors = None, err_retryAfter = None\<rparr>"

definition AuthenticationError :: "string \<Rightarrow> details option \<Rightarrow> aispine_error" where
  "AuthenticationError message dets =
     (AISpineError message ''AUTHENTICATION_ERROR'' (Some 401) dets)\<lparr>err_name := ''AuthenticationError''\<rparr>"

definition AuthorizationError :: "string \<Rightarrow> details option \<Rightarrow> aispine_error" where
  "AuthorizationError message dets =
     (AISpineError message ''AUTHORIZATION_ERROR'' (Some 403) dets)\<lparr>err_name := ''AuthorizationError''\<rparr>"

definition ValidationError :: "string \<Rightarrow> json list option \<Rightarrow> details option \<Rightarrow> aispine_error" where
  "ValidationError message validationErrors dets =
     (AISpineError message ''VALIDATION_ERROR'' (Some 400) dets)
       \<lparr>err_name := ''ValidationError'',
        err_validationErrors := Some (case validationErrors of None \<Rightarrow> [] | Some vs \<Rightarrow> vs)\<rparr>"

text \<open>\<open>NotFoundError(resource, id?)\<close>; the classifier never passes an id.\<close>

definition NotFoundError :: "string \<Rightarrow> string option \<Rightarrow> aispine_error" where
  "NotFoundError resource ident =
     (AISpineError
        (case ident of
           None \<Rightarrow> resource @ '' not found''
         | Some i \<Rightarrow> (if i = [] then resource @ '' not found''
                     else resource @ '' with id '' @ [CHR 0x27] @ i @ [CHR 0x27] @ '' not found''))
        ''NOT_FOUND'' (Some 404) None)\<lparr>err_name := ''NotFoundError''\<rparr>"

definition RateLimitError :: "string \<Rightarrow> int option \<Rightarrow> details option \<Rightarrow> aispine_error" where
  "RateLimitError message retryAfter dets =
     (AISpineError message ''RATE_LIMIT_ERROR'' (Some 429) dets)
       \<lparr>err_name := ''RateLimitError'', err_retryAfter := retryAfter\<rparr>"

definition NetworkError :: "string \<Rightarrow> details option \<Rightarrow> aispine_error" where
  "NetworkError message dets =
     (AISpineError message ''NETWORK_ERROR'' None dets)\<lparr>err_name := ''NetworkError''\<rparr>"

text \<open>
  Decimal rendering of an integer, as a template literal renders an integral number
  below \<open>10^21\<close> (larger numbers are written with an exponent, which is not modelled).
\<close>

definition digit_char :: "nat \<Rightarrow> char" where
  "digit_char d = ''0123456789'' ! (d mod 10)"

fun string_of_nat :: "nat \<Rightarrow> string" where
  "string_of_nat n =
     (if n < 10 then [digit_char n] else string_of_nat (n div 10) @ [digit_char (n mod 10)])"

definition string_of_int :: "int \<Rightarrow> string" where
  "string_of_int i = (if i < 0 then CHR ''-'' # string_of_nat (nat (- i)) else string_of_nat (nat i))"

definition TimeoutError :: "int \<Rightarrow> details option \<Rightarrow> aispine_error" where
  "TimeoutError timeout dets =
     (AISpineError (''Request timed out after '' @ string_of_int timeout @ ''ms'')
        ''TIMEOUT_ERROR'' (Some 408) dets)\<lparr>err_name := ''TimeoutError''\<rparr>"

definition ServerError :: "string \<Rightarrow> int \<Rightarrow> details option \<Rightarrow> aispine_error" where
  "ServerError message status dets =
     (AISpineError message ''SERVER_ERROR'' (Some status) dets)\<lparr>err_name := ''ServerError''\<rparr>"

text \<open>
  JavaScript truthiness of the optional values that the source chains with \<open>||\<close>:
  \<open>undefined\<close>, the empty string and the number 0 are falsy.
\<close>

definition truthy_string :: "string option \<Rightarrow> bool" where
  "truthy_string s = (case s of None \<Rightarrow> False | Some x \<Rightarrow> x \<noteq> [])"

definition truthy_number :: "int option \<Rightarrow> bool" where
  "truthy_number n = (case n of None \<Rightarrow> False | Some x \<Rightarrow> x \<noteq> 0)"

definition body_field :: "api_body option \<Rightarrow> (api_body \<Rightarrow> 'a option) \<Rightarrow> 'a option" where
  "body_field data f = (case data of None \<Rightarrow> None | Some b \<Rightarrow> f b)"

definition createErrorFromResponse :: "int \<Rightarrow> api_body option \<Rightarrow> string option \<Rightarrow> aispine_error" where
  "createErrorFromResponse status data message =
     (let errorMessage =
            (if truthy_string message then the message
             else if truthy_string (body_field data body_message) then the (body_field data body_message)
             else if truthy_string (body_field data body_error) then the (body_field data body_error)
             else ''An error occurred'');
          dets = map_option BodyDetails (body_field data body_details)
      in if status = 400 then ValidationError errorMessage (body_field data body_validation_errors) dets
         else if status = 401 then AuthenticationError errorMessage dets
         else if status = 403 then AuthorizationError errorMessage dets
         else if status = 404 then NotFoundError errorMessage None
         else if status = 408 then
           TimeoutError (if truthy_number (body_field data body_timeout)
                         then the (body_field data body_timeout) else 30000) dets
         else if status = 429 then RateLimitError errorMessage (body_field data body_retry_after) dets
         else if status = 500 \<or> status = 502 \<or> status = 503 \<or> status = 504 then
           ServerError errorMessage status dets
         else AISpineError errorMessage ''UNKNOWN_ERROR'' (Some status) dets)"

section \<open>The HTTP client (client.ts)\<close>

record axios_error_response =
  resp_status :: int
  resp_data :: "api_body option"

record axios_error =
  ax_response :: "axios_error_response option"
  ax_code :: "string option"
  ax_message :: string

record axios_response =
  res_data :: json
  res_status :: int
  res_statusText :: string
  res_headers :: "(string \<times> string) list"

record sdk_response =
  sdk_data :: json
  sdk_status :: int
  sdk_statusText :: string
  sdk_headers :: "(string \<times> string) list"

datatype callback = UserCallback nat | Noop

record aispine_config_input =
  in_apiKey :: "string option"
  in_supabaseToken :: "string option"
  in_baseURL :: "string option"
  in_timeout :: "int option"
  in_retries :: "int option"
  in_debug :: "bool option"
  in_onCreditsLow :: "nat option"

record aispine_config =
  cfg_apiKey :: string
  cfg_supabaseToken :: "string option"
  cfg_baseURL :: string
  cfg_timeout :: int
  cfg_retries :: int
  cfg_debug :: bool
  cfg_onCreditsLow :: callback

datatype constructor_arg = KeyString string | ConfigObject aispine_config_input

definition no_config :: aispine_config_input where
  "no_config = \<lparr>in_apiKey = None, in_supabaseToken = None, in_baseURL = None, in_timeout = None,
                in_retries = None, in_debug = None, in_onCreditsLow = None\<rparr>"

text \<open>
  The constructor of \<open>AISpineClient\<close>: the effective configuration, and whether the
  warning about the key prefix is printed. Every default is applied with \<open>||\<close>.
\<close>

definition client_constructor :: "constructor_arg \<Rightarrow> bool \<times> aispine_config" where
  "client_constructor arg =
     (let config = (case arg of KeyString k \<Rightarrow> no_config\<lparr>in_apiKey := Some k\<rparr> | ConfigObject c \<Rightarrow> c);
          apiKey = (if truthy_string (in_apiKey config) then the (in_apiKey config)
                    else ''sk_no_auth_required'');
          warn = (apiKey \<noteq> ''sk_no_auth_required'' \<and> take 3 apiKey \<noteq> ''sk_'')
      in (warn,
          \<lparr>cfg_apiKey = apiKey,
           cfg_supabaseToken = in_supabaseToken config,
           cfg_baseURL = (if truthy_string (in_baseURL config) then the (in_baseURL config)
                          else ''https://ai-spine-api.up.railway.app''),
           cfg_timeout = (if truthy_number (in_timeout config) then the (in_timeout config) else 30000),
           cfg_retries = (if truthy_number (in_retries config) then the (in_retries config) else 3),
           cfg_debug = (case in_debug config of None \<Rightarrow> False | Some d \<Rightarrow> d),
           cfg_onCreditsLow = (case in_onCreditsLow config of None \<Rightarrow> Noop | Some f \<Rightarrow> UserCallback f)\<rparr>))"

definition handleError :: "aispine_config \<Rightarrow> axios_error \<Rightarrow> aispine_error" where
  "handleError config error =
     (case ax_response error of
        None \<Rightarrow>
          (if ax_code error = Some ''ECONNABORTED'' \<or> ax_code error = Some ''ETIMEDOUT''
           then TimeoutError (cfg_timeout config) None
           else NetworkError (ax_message error)
                  (Some (NetworkDetails (ax_code error) (ax_message error))))
      | Some r \<Rightarrow> createErrorFromResponse (resp_status r) (resp_data r) (Some (ax_message error)))"

text \<open>
  A request function is called once per attempt; \<open>requestFn i\<close> is the outcome of the call
  made at attempt \<open>i\<close>: a response, or the value it rejects with. The rejection need not be
  an \<open>AISpineError\<close> (the \<open>instanceof\<close> test of the source).
\<close>

datatype thrown = SpineError aispine_error | Foreign string

type_synonym request_fn = "nat \<Rightarrow> thrown + axios_response"

text \<open>
  The axios instance with its response interceptor installed: the raw outcome of the
  transport is passed through on success and mapped by \<open>handleError\<close> on failure.
\<close>

definition http_request :: "aispine_config \<Rightarrow> (nat \<Rightarrow> axios_error + axios_response) \<Rightarrow> request_fn" where
  "http_request config transport i =
     (case transport i of
        Inl error \<Rightarrow> Inl (SpineError (handleError config error))
      | Inr response \<Rightarrow> Inr response)"

record request_options =
  opt_timeout :: "int option"
  opt_retries :: "int option"
  opt_headers :: "(string \<times> string) list option"

definition no_options :: request_options where
  "no_options = \<lparr>opt_timeout = None, opt_retries = None, opt_headers = None\<rparr>"

text \<open>
  What one call of \<open>executeWithRetry\<close> does, in order: the attempts it makes, the delays
  it sleeps and the debug lines it prints (attempt number, total, delay).
\<close>

datatype exec_event = Attempt nat | Sleep int | RetryLog int int int

text \<open>
  The promise settles with a response or rejects with \<open>lastError\<close>, which is still
  \<open>undefined\<close> (\<open>None\<close>) when the loop body never ran.
\<close>

datatype exec_result = Returned sdk_response | Threw "aispine_error option"

definition as_aispine_error :: "thrown \<Rightarrow> aispine_error" where
  "as_aispine_error t =
     (case t of
        SpineError e \<Rightarrow> e
      | Foreign x \<Rightarrow> AISpineError ''Unexpected error'' ''UNKNOWN_ERROR'' None (Some (OriginalError x)))"

definition no_retry_status :: "aispine_error \<Rightarrow> bool" where
  "no_retry_status e =
     (err_status e = Some 400 \<or> err_status e = Some 401 \<or> err_status e = Some 403 \<or>
      err_status e = Some 404)"

definition retry_delay :: "nat \<Rightarrow> int" where
  "retry_delay attempt = min (1000 * 2 ^ attempt) 10000"

definition to_sdk_response :: "axios_response \<Rightarrow> sdk_response" where
  "to_sdk_response r =
     \<lparr>sdk_data = res_data r, sdk_status = res_status r, sdk_statusText = res_statusText r,
      sdk_headers = res_headers r\<rparr>"

text \<open>The \<open>for\<close> loop of \<open>executeWithRetry\<close>, from the given value of \<open>attempt\<close>.\<close>

function retry_loop ::
  "bool \<Rightarrow> int \<Rightarrow> request_fn \<Rightarrow> nat \<Rightarrow> aispine_error option \<Rightarrow> exec_event list \<times> exec_result" where
  "retry_loop debug maxRetries requestFn attempt lastError =
     (if int attempt \<le> maxRetries then
        (case requestFn attempt of
           Inr response \<Rightarrow> ([Attempt attempt], Returned (to_sdk_response response))
         | Inl t \<Rightarrow>
             (if no_retry_status (as_aispine_error t) then
                ([Attempt attempt], Threw (Some (as_aispine_error t)))
              else if int attempt = maxRetries then
                ([Attempt attempt], Threw (Some (as_aispine_error t)))
              else
                (case retry_loop debug maxRetries requestFn (Suc attempt) (Some (as_aispine_error t)) of
                   (events, result) \<Rightarrow>
                     (Attempt attempt # Sleep (retry_delay attempt) #
                      (if debug
                       then [RetryLog (int attempt + 2) (maxRetries + 1) (retry_delay attempt)]
                       else []) @ events,
                      result))))
      else ([], Threw lastError))"
  by pat_completeness auto
termination
  by (relation "measure (\<lambda>(debug, maxRetries, requestFn, attempt, lastError).
                   nat (maxRetries + 1 - int attempt))") auto

declare retry_loop.simps [simp del]

definition executeWithRetry ::
  "aispine_config \<Rightarrow> request_fn \<Rightarrow> request_options \<Rightarrow> exec_event list \<times> exec_result" where
  "executeWithRetry config requestFn options =
     (let maxRetries = (case opt_retries options of None \<Rightarrow> cfg_retries config | Some r \<Rightarrow> r)
      in retry_loop (cfg_debug config) maxRetries requestFn 0 None)"

text \<open>
  \<open>get\<close>, \<open>post\<close>, \<open>put\<close>, \<open>delete\<close> and \<open>patch\<close> differ in the axios verb only: each hands
  the intercepted request and its options to \<open>executeWithRetry\<close>.
\<close>

definition client_get ::
  "aispine_config \<Rightarrow> (nat \<Rightarrow> axios_error + axios_response) \<Rightarrow> request_options \<Rightarrow>
   exec_event list \<times> exec_result" where
  "client_get config transport options =
     executeWithRetry config (http_request config transport) options"

definition attempts_made :: "exec_event list \<Rightarrow> nat list" where
  "attempts_made events = concat (map (\<lambda>e. case e of Attempt a \<Rightarrow> [a] | _ \<Rightarrow> []) events)"

definition delays_slept :: "exec_event list \<Rightarrow> int list" where
  "delays_slept events = concat (map (\<lambda>e. case e of Sleep d \<Rightarrow> [d] | _ \<Rightarrow> []) events)"

definition is_retry_log :: "exec_event \<Rightarrow> bool" where
  "is_retry_log e = (case e of RetryLog a b c \<Rightarrow> True | _ \<Rightarrow> False)"

text \<open>
  The kinds of the specification's error taxonomy. The source tags an error with its
  \<open>code\<close> string; \<open>kind_of\<close> reads the kind off that tag.
\<close>

datatype kind =
  Validation | Authentication | Authorization | NotFound | RateLimit | Timeout | Network |
  Server | Unknown

definition kind_of :: "aispine_error \<Rightarrow> kind option" where
  "kind_of e =
     (if err_code e = ''VALIDATION_ERROR'' then Some Validation
      else if err_code e = ''AUTHENTICATION_ERROR'' then Some Authentication
      else if err_code e = ''AUTHORIZATION_ERROR'' then Some Authorization
      else if err_code e = ''NOT_FOUND'' then Some NotFound
      else if err_code e = ''RATE_LIMIT_ERROR'' then Some RateLimit
      else if err_code e = ''TIMEOUT_ERROR'' then Some Timeout
      else if err_code e = ''NETWORK_ERROR'' then Some Network
      else if err_code e = ''SERVER_ERROR'' then Some Server
      else if err_code e = ''UNKNOWN_ERROR'' then Some Unknown
      else None)"

text \<open>
  The classification as the specification words it, to be compared with \<open>handleError\<close>:
  no response and a timeout code gives timeout, no response otherwise gives network, a
  response is mapped by its status.
\<close>

definition spec_kind_of_status :: "int \<Rightarrow> kind" where
  "spec_kind_of_status s =
     (if s = 400 then Validation
      else if s = 401 then Authentication
      else if s = 403 then Authorization
      else if s = 404 then NotFound
      else if s = 408 then Timeout
      else if s = 429 then RateLimit
      else if s \<in> {500, 502, 503, 504} then Server
      else Unknown)"

definition spec_classify :: "axios_error \<Rightarrow> kind" where
  "spec_classify error =
     (case ax_response error of
        None \<Rightarrow> (if ax_code error \<in> {Some ''ECONNABORTED'', Some ''ETIMEDOUT''} then Timeout else Network)
      | Some r \<Rightarrow> spec_kind_of_status (resp_status r))"

text \<open>The status that belongs to a kind, for the kinds that have one of their own.\<close>

definition canonical_status :: "kind \<Rightarrow> int option" where
  "canonical_status k =
     (case k of
        Validation \<Rightarrow> Some 400
      | Authentication \<Rightarrow> Some 401
      | Authorization \<Rightarrow> Some 403
      | NotFound \<Rightarrow> Some 404
      | Timeout \<Rightarrow> Some 408
      | RateLimit \<Rightarrow> Some 429
      | _ \<Rightarrow> None)"

section \<open>Webhook signatures (webhooks.ts)\<close>

text \<open>
  The digest comes from the runtime's crypto library, which is not part of the
  repository: \<open>hmac secret text\<close> stands for the bytes of
  \<open>createHmac('sha256', secret).update(text, 'utf8').digest()\<close> and is a parameter of the
  model. Hex encoding and decoding of those bytes are written out. A string is the list
  of the bytes of its UTF-8 encoding.
\<close>

type_synonym byte = "8 word"

type_synonym hmac_fn = "string \<Rightarrow> string \<Rightarrow> byte list"

definition hex_digit :: "nat \<Rightarrow> char" where
  "hex_digit d = ''0123456789abcdef'' ! (d mod 16)"

definition hex_of_byte :: "byte \<Rightarrow> string" where
  "hex_of_byte b = [hex_digit (unat b div 16), hex_digit (unat b mod 16)]"

definition hex_encode :: "byte list \<Rightarrow> string" where
  "hex_encode bs = concat (map hex_of_byte bs)"

definition hex_value :: "char \<Rightarrow> nat option" where
  "hex_value c =
     (let n = of_char c :: nat
      in if 48 \<le> n \<and> n \<le> 57 then Some (n - 48)
         else if 97 \<le> n \<and> n \<le> 102 then Some (n - 87)
         else if 65 \<le> n \<and> n \<le> 70 then Some (n - 55)
         else None)"

text \<open>
  \<open>Buffer.from(s, 'hex')\<close> decodes two characters at a time and stops at the first pair
  that is not hexadecimal; a trailing single character is dropped.
\<close>

fun hex_decode :: "string \<Rightarrow> byte list" where
  "hex_decode (a # b # rest) =
     (case (hex_value a, hex_value b) of
        (Some x, Some y) \<Rightarrow> of_nat (16 * x + y) # hex_decode rest
      | _ \<Rightarrow> [])"
| "hex_decode _ = []"

text \<open>\<open>String.prototype.split\<close> with a one-character separator.\<close>

fun split_on :: "char \<Rightarrow> string \<Rightarrow> string list" where
  "split_on c [] = [[]]"
| "split_on c (x # xs) =
     (if x = c then [] # split_on c xs
      else (case split_on c xs of [] \<Rightarrow> [[x]] | y # ys \<Rightarrow> (x # y) # ys))"

text \<open>
  \<open>parseInt(s, 10)\<close>: leading white space is skipped, one sign is read, then the longest
  run of decimal digits; \<open>NaN\<close> when there is no digit. The white space is that of
  ECMAScript: TAB, LF, VT, FF, CR, SP, U+00A0, U+1680, U+2000 to U+200A, U+2028, U+2029,
  U+202F, U+205F, U+3000 and U+FEFF, each in its UTF-8 encoding.
\<close>

definition white_space_length :: "nat list \<Rightarrow> nat" where
  "white_space_length bytes =
     (case bytes of
        [] \<Rightarrow> 0
      | a # rest \<Rightarrow>
          (if a = 9 \<or> a = 10 \<or> a = 11 \<or> a = 12 \<or> a = 13 \<or> a = 32 then 1
           else if a = 0xC2 \<and> take 1 rest = [0xA0] then 2
           else if a = 0xE1 \<and> take 2 rest = [0x9A, 0x80] then 3
           else if a = 0xE2 \<and> take 1 rest = [0x80] \<and>
                   list_ex (\<lambda>b. (0x80 \<le> b \<and> b \<le> 0x8A) \<or> b = 0xA8 \<or> b = 0xA9 \<or> b = 0xAF)
                     (take 1 (drop 1 rest)) then 3
           else if a = 0xE2 \<and> take 2 rest = [0x81, 0x9F] then 3
           else if a = 0xE3 \<and> take 2 rest = [0x80, 0x80] then 3
           else if a = 0xEF \<and> take 2 rest = [0xBB, 0xBF] then 3
           else 0))"

function trim_start :: "string \<Rightarrow> string" where
  "trim_start s =
     (if white_space_length (map of_char s) = 0 then s
      else trim_start (drop (white_space_length (map of_char s)) s))"
  by pat_completeness auto
termination
proof (relation "measure length")
  show "wf (measure length)" by simp
next
  fix s :: string
  assume white: "white_space_length (map of_char s) \<noteq> 0"
  then have "s \<noteq> []" by (auto simp add: white_space_length_def)
  then show "(drop (white_space_length (map of_char s)) s, s) \<in> measure length"
    using white by simp
qed

declare trim_start.simps [simp del]

definition is_digit :: "char \<Rightarrow> bool" where
  "is_digit c = (48 \<le> (of_char c :: nat) \<and> (of_char c :: nat) \<le> 57)"

definition digit_value :: "char \<Rightarrow> nat" where
  "digit_value c = of_char c - 48"

definition digits_value :: "string \<Rightarrow> nat" where
  "digits_value ds = foldl (\<lambda>acc c. 10 * acc + digit_value c) 0 ds"

definition parse_digits :: "string \<Rightarrow> nat option" where
  "parse_digits s =
     (let ds = takeWhile is_digit s in if ds = [] then None else Some (digits_value ds))"

text \<open>The integer that \<open>parseInt\<close> reads, before it is made a number.\<close>

definition parse_integer :: "string \<Rightarrow> int option" where
  "parse_integer s =
     (case trim_start s of
        [] \<Rightarrow> None
      | c # rest \<Rightarrow>
          (if c = CHR ''-'' then map_option (\<lambda>n. - int n) (parse_digits rest)
           else if c = CHR ''+'' then map_option int (parse_digits rest)
           else map_option int (parse_digits (c # rest))))"

text \<open>
  The numbers of \<open>verify\<close> are IEEE 754 doubles. Every one of them is an integer, an
  infinity or \<open>NaN\<close>: the operands are integers and the operations are a product and a
  difference. \<open>round_double\<close> is the double nearest to an integer (ties to the even
  significand, overflow to an infinity): integers up to \<open>2^53\<close> are doubles, beyond that
  the doubles with \<open>b\<close> bits are the multiples of \<open>2^(b - 53)\<close>. A product and a difference
  of doubles are the exact result rounded, and \<open>parseInt\<close> is the integer it reads,
  rounded (an engine may approximate a numeral of more than 20 significant digits).
\<close>

datatype js_number = Finite int | PosInf | NegInf | NaN

fun bit_length :: "nat \<Rightarrow> nat" where
  "bit_length n = (if n = 0 then 0 else Suc (bit_length (n div 2)))"

declare bit_length.simps [simp del]

definition round_double :: "int \<Rightarrow> js_number" where
  "round_double x =
     (if \<bar>x\<bar> \<le> 2 ^ 53 then Finite x
      else
        (let m = nat \<bar>x\<bar>;
             q = 2 ^ (bit_length m - 53);
             d = m div q;
             r = m mod q;
             n = (if 2 * r < q then d else if q < 2 * r then d + 1
                  else if even d then d else d + 1)
         in if 2 ^ 1024 \<le> n * q then (if x < 0 then NegInf else PosInf)
            else Finite (if x < 0 then - int (n * q) else int (n * q))))"

definition js_times_1000 :: "js_number \<Rightarrow> js_number" where
  "js_times_1000 a = (case a of Finite x \<Rightarrow> round_double (x * 1000) | other \<Rightarrow> other)"

definition js_minus :: "js_number \<Rightarrow> js_number \<Rightarrow> js_number" where
  "js_minus a b =
     (case (a, b) of
        (NaN, _) \<Rightarrow> NaN
      | (_, NaN) \<Rightarrow> NaN
      | (Finite x, Finite y) \<Rightarrow> round_double (x - y)
      | (Finite x, PosInf) \<Rightarrow> NegInf
      | (Finite x, NegInf) \<Rightarrow> PosInf
      | (PosInf, PosInf) \<Rightarrow> NaN
      | (PosInf, _) \<Rightarrow> PosInf
      | (NegInf, NegInf) \<Rightarrow> NaN
      | (NegInf, _) \<Rightarrow> NegInf)"

definition js_greater :: "js_number \<Rightarrow> js_number \<Rightarrow> bool" where
  "js_greater a b =
     (case (a, b) of
        (NaN, _) \<Rightarrow> False
      | (_, NaN) \<Rightarrow> False
      | (Finite x, Finite y) \<Rightarrow> y < x
      | (Finite x, PosInf) \<Rightarrow> False
      | (Finite x, NegInf) \<Rightarrow> True
      | (PosInf, PosInf) \<Rightarrow> False
      | (PosInf, _) \<Rightarrow> True
      | (NegInf, _) \<Rightarrow> False)"

definition parseInt :: "string \<Rightarrow> js_number" where
  "parseInt s = (case parse_integer s of None \<Rightarrow> NaN | Some n \<Rightarrow> round_double n)"

record webhook_signature_options =
  sig_secret :: string
  sig_timestamp :: string
  sig_payload :: string

record webhook_verification_result =
  valid :: bool
  error :: "string option"

definition generate :: "hmac_fn \<Rightarrow> webhook_signature_options \<Rightarrow> string" where
  "generate hmac options =
     (let signedPayload = sig_timestamp options @ ''.'' @ sig_payload options;
          signature = hex_encode (hmac (sig_secret options) signedPayload)
      in ''t='' @ sig_timestamp options @ '',v1='' @ signature)"

text \<open>
  The loop over the comma-separated elements: \<open>[key, value] = element.split('=')\<close> takes
  the first two parts, \<open>value\<close> is \<open>undefined\<close> (\<open>None\<close>) when there is no \<open>=\<close>.
\<close>

fun parse_elements ::
  "string list \<Rightarrow> string option \<Rightarrow> string option list \<Rightarrow> string option \<times> string option list" where
  "parse_elements [] timestamp signatures = (timestamp, signatures)"
| "parse_elements (element # rest) timestamp signatures =
     (let parts = split_on CHR ''='' element;
          key = (case parts of [] \<Rightarrow> None | k # _ \<Rightarrow> Some k);
          val = (case parts of _ # v # _ \<Rightarrow> Some v | _ \<Rightarrow> None)
      in if key = Some ''t'' then parse_elements rest val signatures
         else if key = Some ''v1'' then parse_elements rest timestamp (signatures @ [val])
         else parse_elements rest timestamp signatures)"

text \<open>The exceptions the body of \<open>verify\<close> can raise, with the runtime's messages.\<close>

datatype verify_exception = BufferFromUndefined | TimingSafeEqualLength

definition exception_message :: "verify_exception \<Rightarrow> string" where
  "exception_message e =
     (case e of
        BufferFromUndefined \<Rightarrow>
          ''The first argument must be of type string or an instance of Buffer, ArrayBuffer, or Array or an Array-like Object. Received undefined''
      | TimingSafeEqualLength \<Rightarrow> ''Input buffers must have the same byte length'')"

text \<open>
  \<open>signatures.some(...)\<close>: the candidates are tried in order; \<open>Buffer.from\<close> raises on
  \<open>undefined\<close>, \<open>timingSafeEqual\<close> raises when the two buffers differ in length.
\<close>

fun some_signature_matches :: "byte list \<Rightarrow> string option list \<Rightarrow> verify_exception + bool" where
  "some_signature_matches expected [] = Inr False"
| "some_signature_matches expected (signature # rest) =
     (case signature of
        None \<Rightarrow> Inl BufferFromUndefined
      | Some s \<Rightarrow>
          (if length (hex_decode s) \<noteq> length expected then Inl TimingSafeEqualLength
           else if hex_decode s = expected then Inr True
           else some_signature_matches expected rest))"

text \<open>
  The test \<open>now - timestampMs > tolerance * 1000\<close>, where \<open>timestampMs\<close> is
  \<open>parseInt(timestamp, 10) * 1000\<close>. \<open>now\<close> is the value of \<open>Date.now()\<close>, an integer, and
  \<open>tolerance\<close> an integral number of seconds.
\<close>

definition timestamp_too_old :: "int \<Rightarrow> string \<Rightarrow> int \<Rightarrow> bool" where
  "timestamp_too_old now timestamp tolerance =
     (let timestampMs = js_times_1000 (parseInt timestamp)
      in js_greater (js_minus (round_double now) timestampMs)
           (js_times_1000 (round_double tolerance)))"

text \<open>An omitted \<open>tolerance\<close> is 300.\<close>

definition verify ::
  "hmac_fn \<Rightarrow> int \<Rightarrow> string \<Rightarrow> string \<Rightarrow> string \<Rightarrow> int option \<Rightarrow> webhook_verification_result" where
  "verify hmac now receivedSignature payload secret tolerance_arg =
     (let tolerance = (case tolerance_arg of None \<Rightarrow> 300 | Some t \<Rightarrow> t);
          elements = split_on CHR '','' receivedSignature
      in case parse_elements elements None [] of
           (timestamp, signatures) \<Rightarrow>
             (if \<not> truthy_string timestamp then
                \<lparr>valid = False, error = Some ''Missing timestamp in signature''\<rparr>
              else if timestamp_too_old now (the timestamp) tolerance then
                \<lparr>valid = False, error = Some ''Timestamp outside tolerance window''\<rparr>
              else
                (let expectedSignature = hex_encode (hmac secret (the timestamp @ ''.'' @ payload))
                 in case some_signature_matches (hex_decode expectedSignature) signatures of
                      Inr isValid \<Rightarrow> \<lparr>valid = isValid, error = None\<rparr>
                    | Inl e \<Rightarrow>
                        \<lparr>valid = False,
                         error = Some (''Signature verification failed: '' @ exception_message e)\<rparr>)))"

section \<open>Webhook event handlers (webhooks.ts)\<close>

datatype webhook_event_type =
    ExecutionStarted
  | ExecutionCompleted
  | ExecutionFailed
  | ExecutionNodeCompleted
  | ExecutionNodeFailed
  | AgentRegistered
  | AgentUpdated
  | AgentRemoved
  | FlowCreated
  | FlowUpdated
  | FlowDeleted
  | SystemHealthChanged
  | Wildcard

definition event_type_string :: "webhook_event_type \<Rightarrow> string" where
  "event_type_string t =
     (case t of
        ExecutionStarted \<Rightarrow> ''execution.started''
      | ExecutionCompleted \<Rightarrow> ''execution.completed''
      | ExecutionFailed \<Rightarrow> ''execution.failed''
      | ExecutionNodeCompleted \<Rightarrow> ''execution.node.completed''
      | ExecutionNodeFailed \<Rightarrow> ''execution.node.failed''
      | AgentRegistered \<Rightarrow> ''agent.registered''
      | AgentUpdated \<Rightarrow> ''agent.updated''
      | AgentRemoved \<Rightarrow> ''agent.removed''
      | FlowCreated \<Rightarrow> ''flow.created''
      | FlowUpdated \<Rightarrow> ''flow.updated''
      | FlowDeleted \<Rightarrow> ''flow.deleted''
      | SystemHealthChanged \<Rightarrow> ''system.health.changed''
      | Wildcard \<Rightarrow> ''*'')"

record webhook_event =
  ev_id :: string
  ev_event :: webhook_event_type
  ev_data :: json
  ev_timestamp :: string
  ev_webhook_id :: string
  ev_signature :: "string option"
  ev_attempt :: int

text \<open>
  A handler is a function object, compared by reference: \<open>handler_ref\<close> is its identity.
  The \<open>Map\<close> from event types to \<open>Set\<close>s of handlers keeps insertion order in both, so it
  is a list of entries whose handler lists have no duplicates.
\<close>

type_synonym handler_ref = nat

type_synonym handler_map = "(webhook_event_type \<times> handler_ref list) list"

definition map_get :: "handler_map \<Rightarrow> webhook_event_type \<Rightarrow> handler_ref list option" where
  "map_get handlers t = map_of handlers t"

definition map_set :: "handler_map \<Rightarrow> webhook_event_type \<Rightarrow> handler_ref list \<Rightarrow> handler_map" where
  "map_set handlers t hs =
     (if map_of handlers t = None then handlers @ [(t, hs)]
      else map (\<lambda>(k, v). if k = t then (k, hs) else (k, v)) handlers)"

definition map_delete :: "handler_map \<Rightarrow> webhook_event_type \<Rightarrow> handler_map" where
  "map_delete handlers t = filter (\<lambda>(k, v). k \<noteq> t) handlers"

definition set_add :: "handler_ref list \<Rightarrow> handler_ref \<Rightarrow> handler_ref list" where
  "set_add hs h = (if h \<in> set hs then hs else hs @ [h])"

definition set_delete :: "handler_ref list \<Rightarrow> handler_ref \<Rightarrow> handler_ref list" where
  "set_delete hs h = filter (\<lambda>x. x \<noteq> h) hs"

definition on :: "webhook_event_type \<Rightarrow> handler_ref \<Rightarrow> handler_map \<Rightarrow> handler_map" where
  "on eventType handler handlers =
     (let handlers1 = (if map_get handlers eventType = None then map_set handlers eventType []
                       else handlers)
      in case map_get handlers1 eventType of
           None \<Rightarrow> handlers1
         | Some hs \<Rightarrow> map_set handlers1 eventType (set_add hs handler))"

text \<open>
  \<open>off\<close> deletes from the \<open>Set\<close> object held by the map (so the entry changes in place),
  then drops the entry when the set has become empty.
\<close>

definition off :: "webhook_event_type \<Rightarrow> handler_ref \<Rightarrow> handler_map \<Rightarrow> handler_map" where
  "off eventType handler handlers =
     (case map_get handlers eventType of
        None \<Rightarrow> handlers
      | Some hs \<Rightarrow>
          (let hs1 = set_delete hs handler;
               handlers1 = map_set handlers eventType hs1
           in if length hs1 = 0 then map_delete handlers1 eventType else handlers1))"

definition getRegisteredEvents :: "handler_map \<Rightarrow> webhook_event_type list" where
  "getRegisteredEvents handlers = map fst handlers"

definition removeAllHandlers :: "handler_map \<Rightarrow> handler_map" where
  "removeAllHandlers handlers = []"

datatype registry_op =
  On webhook_event_type handler_ref | Off webhook_event_type handler_ref | RemoveAll

fun apply_op :: "registry_op \<Rightarrow> handler_map \<Rightarrow> handler_map" where
  "apply_op (On t h) handlers = on t h handlers"
| "apply_op (Off t h) handlers = off t h handlers"
| "apply_op RemoveAll handlers = removeAllHandlers handlers"

definition apply_ops :: "registry_op list \<Rightarrow> handler_map \<Rightarrow> handler_map" where
  "apply_ops ops handlers = foldl (\<lambda>hs op. apply_op op hs) handlers ops"

text \<open>A handler registry after a sequence of calls on a new \<open>WebhookEventHandler\<close>.\<close>

definition run_ops :: "registry_op list \<Rightarrow> handler_map" where
  "run_ops ops = apply_ops ops []"

text \<open>
  What a handler does when called: it returns, it throws before returning, or it returns
  a promise, which is fulfilled, is rejected, or never settles; and, before it returns or
  throws, it may call \<open>on\<close>, \<open>off\<close> and \<open>removeAllHandlers\<close> on the registry that is
  emitting. The behaviour may depend on how many handler calls the running \<open>emit\<close> has
  made before this one, which also covers a handler whose calls depend on the registry
  it finds.
\<close>

datatype promise_state = Fulfilled | Rejected string | Pending

datatype handler_outcome = Returns | Throws string | ReturnsPromise promise_state

type_synonym handler_behaviour =
  "nat \<Rightarrow> handler_ref \<Rightarrow> webhook_event \<Rightarrow> handler_outcome \<times> registry_op list"

text \<open>
  While \<open>emit\<close> is suspended in an \<open>await\<close>, other code runs (the rest of an \<open>async\<close>
  handler, other tasks) and may change the registry too: \<open>during_await 0\<close> are the calls
  made during the await of the first group, \<open>during_await 1\<close> those made during the await
  of the wildcard group.
\<close>

type_synonym interference = "nat \<Rightarrow> registry_op list"

datatype emit_event = Invoke handler_ref | AwaitAll "handler_ref list" | ConsoleError string string

datatype emit_result = Resolved | RejectedWith string | NeverSettles

text \<open>
  \<open>Array.from(set).map(handler => Promise.resolve(handler(event)).catch(...))\<close>: the
  array is a copy of the set, made before the first call; the handlers are called one
  after the other; a call that throws leaves the \<open>map\<close>, and the handlers after it are
  not called. The result holds the calls made, the promises created, the exception if one
  was thrown, and the registry as the calls leave it.
\<close>

fun launch_all ::
  "handler_behaviour \<Rightarrow> webhook_event \<Rightarrow> nat \<Rightarrow> handler_ref list \<Rightarrow> handler_map \<Rightarrow>
   emit_event list \<times> promise_state list \<times> string option \<times> handler_map" where
  "launch_all run event k [] handlers = ([], [], None, handlers)"
| "launch_all run event k (h # hs) handlers =
     (case run k h event of
        (Throws e, ops) \<Rightarrow> ([Invoke h], [], Some e, apply_ops ops handlers)
      | (Returns, ops) \<Rightarrow>
          (case launch_all run event (Suc k) hs (apply_ops ops handlers) of
             (tr, ps, thrown, handlers1) \<Rightarrow> (Invoke h # tr, Fulfilled # ps, thrown, handlers1))
      | (ReturnsPromise p, ops) \<Rightarrow>
          (case launch_all run event (Suc k) hs (apply_ops ops handlers) of
             (tr, ps, thrown, handlers1) \<Rightarrow> (Invoke h # tr, p # ps, thrown, handlers1)))"

text \<open>
  The \<open>catch\<close> callbacks print one line per rejected promise (listed here in the order of
  the handlers), also for the promises created before a later handler threw;
  \<open>Promise.all\<close> of the caught promises never rejects and settles once every promise has.
\<close>

definition rejection_logs :: "string \<Rightarrow> promise_state list \<Rightarrow> emit_event list" where
  "rejection_logs label ps =
     concat (map (\<lambda>p. case p of Rejected e \<Rightarrow> [ConsoleError label e] | _ \<Rightarrow> []) ps)"

definition dispatch_group ::
  "handler_behaviour \<Rightarrow> webhook_event \<Rightarrow> nat \<Rightarrow> string \<Rightarrow> handler_ref list \<Rightarrow> handler_map \<Rightarrow>
   registry_op list \<Rightarrow> emit_event list \<times> emit_result \<times> handler_map" where
  "dispatch_group run event k label hs handlers await_ops =
     (case launch_all run event k hs handlers of
        (tr, ps, Some e, handlers1) \<Rightarrow> (tr @ rejection_logs label ps, RejectedWith e, handlers1)
      | (tr, ps, None, handlers1) \<Rightarrow>
          (tr @ [AwaitAll hs] @ rejection_logs label ps,
           if Pending \<in> set ps then NeverSettles else Resolved,
           apply_ops await_ops handlers1))"

text \<open>
  The second half of \<open>emit\<close>: \<open>this.handlers.get('*')\<close> is read from the registry as it is
  when the first await has ended.
\<close>

definition emit_wildcard ::
  "handler_behaviour \<Rightarrow> interference \<Rightarrow> handler_map \<Rightarrow> webhook_event \<Rightarrow> nat \<Rightarrow>
   emit_event list \<times> emit_result \<times> handler_map" where
  "emit_wildcard run during_await handlers event k =
     (case map_get handlers Wildcard of
        None \<Rightarrow> ([], Resolved, handlers)
      | Some wildcardHandlers \<Rightarrow>
          dispatch_group run event k ''Error in wildcard webhook handler:'' wildcardHandlers
            handlers (during_await 1))"

text \<open>\<open>emit\<close>: what it does, how its promise ends, and the registry it leaves.\<close>

definition emit ::
  "handler_behaviour \<Rightarrow> interference \<Rightarrow> handler_map \<Rightarrow> webhook_event \<Rightarrow>
   emit_event list \<times> emit_result \<times> handler_map" where
  "emit run during_await handlers event =
     (case map_get handlers (ev_event event) of
        None \<Rightarrow> emit_wildcard run during_await handlers event 0
      | Some specificHandlers \<Rightarrow>
          (case dispatch_group run event 0
                  (''Error in webhook handler for '' @ event_type_string (ev_event event) @ '':'')
                  specificHandlers handlers (during_await 0) of
             (tr, Resolved, handlers1) \<Rightarrow>
               (case emit_wildcard run during_await handlers1 event (length specificHandlers) of
                  (tr2, result, handlers2) \<Rightarrow> (tr @ tr2, result, handlers2))
           | (tr, result, handlers1) \<Rightarrow> (tr, result, handlers1)))"

definition invocations :: "emit_event list \<Rightarrow> handler_ref \<Rightarrow> nat" where
  "invocations tr h = length (filter (\<lambda>e. e = Invoke h) tr)"

definition is_console_error :: "emit_event \<Rightarrow> bool" where
  "is_console_error e = (case e of ConsoleError l x \<Rightarrow> True | _ \<Rightarrow> False)"

definition is_invoke :: "emit_event \<Rightarrow> bool" where
  "is_invoke e = (case e of Invoke h \<Rightarrow> True | _ \<Rightarrow> False)"

definition is_await :: "emit_event \<Rightarrow> bool" where
  "is_await e = (case e of AwaitAll hs \<Rightarrow> True | _ \<Rightarrow> False)"

text \<open>No handler is launched after an await has begun.\<close>

definition all_launched_before_awaited :: "emit_event list \<Rightarrow> bool" where
  "all_launched_before_awaited tr = (filter is_invoke (dropWhile (\<lambda>e. \<not> is_await e) tr) = [])"

definition settles :: "handler_outcome \<Rightarrow> bool" where
  "settles out = (case out of Throws e \<Rightarrow> False | ReturnsPromise Pending \<Rightarrow> False | _ \<Rightarrow> True)"

definition test_event :: "webhook_event_type \<Rightarrow> webhook_event" where
  "test_event t =
     \<lparr>ev_id = ''evt_test'', ev_event = t, ev_data = ''{}'', ev_timestamp = ''2024-01-13T00:00:00.000Z'',
      ev_webhook_id = ''wh_test'', ev_signature = None, ev_attempt = 1\<rparr>"

section \<open>Vocabulary of the properties\<close>

text \<open>The HTTP status of the response a failed transport call carries, if it carries one.\<close>

definition failure_status :: "axios_error + axios_response \<Rightarrow> int option" where
  "failure_status out =
     (case out of Inl e \<Rightarrow> map_option resp_status (ax_response e) | Inr r \<Rightarrow> None)"

text \<open>
  The schedule of a request that fails \<open>n + 1\<close> times: attempts \<open>0 .. n\<close>, with a sleep
  of \<open>min(1000 * 2^a, 10000)\<close> after each attempt \<open>a\<close> but the last.
\<close>

definition backoff_schedule :: "nat \<Rightarrow> exec_event list" where
  "backoff_schedule n =
     concat (map (\<lambda>a. [Attempt a, Sleep (min (1000 * 2 ^ a) 10000)]) [0..<n]) @ [Attempt n]"

text \<open>What one iteration of the loop that goes on to retry leaves in the trace.\<close>

definition retry_events :: "bool \<Rightarrow> int \<Rightarrow> nat \<Rightarrow> exec_event list" where
  "retry_events debug maxRetries a =
     Attempt a # Sleep (retry_delay a) #
     (if debug then [RetryLog (int a + 2) (maxRetries + 1) (retry_delay a)] else [])"

text \<open>Sample inputs: a transport whose every call fails with one status, a client.\<close>

definition always_status :: "int \<Rightarrow> nat \<Rightarrow> axios_error + axios_response" where
  "always_status s i =
     Inl \<lparr>ax_response = Some \<lparr>resp_status = s, resp_data = None\<rparr>, ax_code = None,
          ax_message = ''Request failed''\<rparr>"

definition test_config :: aispine_config where
  "test_config = snd (client_constructor (KeyString ''sk_test''))"

text \<open>
  A stand-in digest for the concrete examples; the properties below hold for every
  digest function.
\<close>

definition sample_hmac :: hmac_fn where
  "sample_hmac secret text = map (\<lambda>c. of_nat (of_char c)) (secret @ text)"

text \<open>
  The state of a well-formed registry: no event type is mapped to an empty set, and a
  set holds a handler at most once.
\<close>

definition registry_ok :: "handler_map \<Rightarrow> bool" where
  "registry_ok handlers = list_all (\<lambda>(t, hs). hs \<noteq> [] \<and> distinct hs) handlers"

text \<open>
  The promise that \<open>Promise.resolve(handler(event))\<close> makes of a call that returned, the
  promises of a group whose calls all return, and the registry as those calls leave it.
\<close>

definition promise_of :: "handler_outcome \<Rightarrow> promise_state" where
  "promise_of out = (case out of ReturnsPromise p \<Rightarrow> p | _ \<Rightarrow> Fulfilled)"

fun promises :: "handler_behaviour \<Rightarrow> webhook_event \<Rightarrow> nat \<Rightarrow> handler_ref list \<Rightarrow> promise_state list" where
  "promises run event k [] = []"
| "promises run event k (h # hs) =
     promise_of (fst (run k h event)) # promises run event (Suc k) hs"

fun launch_registry ::
  "handler_behaviour \<Rightarrow> webhook_event \<Rightarrow> nat \<Rightarrow> handler_ref list \<Rightarrow> handler_map \<Rightarrow> handler_map" where
  "launch_registry run event k [] handlers = handlers"
| "launch_registry run event k (h # hs) handlers =
     launch_registry run event (Suc k) hs (apply_ops (snd (run k h event)) handlers)"

definition throws :: "handler_outcome \<Rightarrow> bool" where
  "throws out = (case out of Throws e \<Rightarrow> True | _ \<Rightarrow> False)"

text \<open>
  The registry from which \<open>emit\<close> reads the wildcard handlers: the one it was called on,
  changed by the calls of the first group and by what ran during the first await.
\<close>

definition registry_at_wildcard ::
  "handler_behaviour \<Rightarrow> interference \<Rightarrow> handler_map \<Rightarrow> webhook_event \<Rightarrow> handler_map" where
  "registry_at_wildcard run during_await handlers event =
     (case map_get handlers (ev_event event) of
        None \<Rightarrow> handlers
      | Some hs \<Rightarrow> apply_ops (during_await 0) (launch_registry run event 0 hs handlers))"

text \<open>Neither a handler call nor other code changes the registry while \<open>emit\<close> runs.\<close>

definition registry_untouched :: "handler_behaviour \<Rightarrow> interference \<Rightarrow> webhook_event \<Rightarrow> bool" where
  "registry_untouched run during_await event =
     ((\<forall>k h. snd (run k h event) = []) \<and> during_await 0 = [])"

text \<open>The launches and the await of one group, and whether its await never ends.\<close>

definition group_events :: "handler_ref list option \<Rightarrow> emit_event list" where
  "group_events g = (case g of None \<Rightarrow> [] | Some hs \<Rightarrow> map Invoke hs @ [AwaitAll hs])"

definition group_stalls ::
  "handler_behaviour \<Rightarrow> webhook_event \<Rightarrow> nat \<Rightarrow> handler_ref list option \<Rightarrow> bool" where
  "group_stalls run event k g =
     (case g of None \<Rightarrow> False | Some hs \<Rightarrow> Pending \<in> set (promises run event k hs))"

definition registered :: "handler_map \<Rightarrow> webhook_event_type \<Rightarrow> handler_ref \<Rightarrow> bool" where
  "registered handlers t h = (case map_get handlers t of None \<Rightarrow> False | Some hs \<Rightarrow> h \<in> set hs)"

text \<open>
  The integers that are doubles and whose neighbours are too
  (\<open>Number.isSafeInteger\<close>): on them the arithmetic of \<open>verify\<close> is exact.
\<close>

definition safe_integer :: "int \<Rightarrow> bool" where
  "safe_integer x = (\<bar>x\<bar> \<le> 9007199254740991)"

text \<open>Handlers that leave the registry alone, and no other code during the awaits.\<close>

definition quiet :: "(nat \<Rightarrow> handler_ref \<Rightarrow> webhook_event \<Rightarrow> handler_outcome) \<Rightarrow> handler_behaviour" where
  "quiet f k h event = (f k h event, [])"

definition no_interference :: interference where
  "no_interference i = []"

text \<open>A handler that takes itself off the wildcard the first thing it does.\<close>

definition unregisters_itself :: handler_behaviour where
  "unregisters_itself k h event = (Returns, [Off Wildcard h])"

section \<open>Properties of the error classification\<close>

lemma kind_of_simps:
  "kind_of (ValidationError m v d) = Some Validation"
  "kind_of (AuthenticationError m d) = Some Authentication"
  "kind_of (AuthorizationError m d) = Some Authorization"
  "kind_of (NotFoundError m i) = Some NotFound"
  "kind_of (RateLimitError m r d) = Some RateLimit"
  "kind_of (TimeoutError t d) = Some Timeout"
  "kind_of (NetworkError m d) = Some Network"
  "kind_of (ServerError m s d) = Some Server"
  "kind_of (AISpineError m ''UNKNOWN_ERROR'' so d) = Some Unknown"
  by (simp_all add: kind_of_def ValidationError_def AuthenticationError_def AuthorizationError_def
      NotFoundError_def RateLimitError_def TimeoutError_def NetworkError_def ServerError_def
      AISpineError_def)

lemma err_status_simps:
  "err_status (ValidationError m v d) = Some 400"
  "err_status (AuthenticationError m d) = Some 401"
  "err_status (AuthorizationError m d) = Some 403"
  "err_status (NotFoundError m i) = Some 404"
  "err_status (RateLimitError m r d) = Some 429"
  "err_status (TimeoutError t d) = Some 408"
  "err_status (NetworkError m d) = None"
  "err_status (ServerError m s d) = Some s"
  "err_status (AISpineError m c so d) = so"
  by (simp_all add: ValidationError_def AuthenticationError_def AuthorizationError_def
      NotFoundError_def RateLimitError_def TimeoutError_def NetworkError_def ServerError_def
      AISpineError_def)

lemma kind_of_createErrorFromResponse:
  "kind_of (createErrorFromResponse s data m) = Some (spec_kind_of_status s)"
  by (simp add: createErrorFromResponse_def spec_kind_of_status_def Let_def kind_of_simps)

lemma err_status_createErrorFromResponse:
  "err_status (createErrorFromResponse s data m) = Some s"
  by (simp add: createErrorFromResponse_def Let_def err_status_simps)

text \<open>
  C3: \<open>handleError\<close> is the classification of the specification: without a response, the
  codes ECONNABORTED and ETIMEDOUT give kind timeout and anything else kind network; with
  a response the status decides (400 validation, 401 authentication, 403 authorization,
  404 not-found, 408 timeout, 429 rate-limit, 500/502/503/504 server, otherwise unknown).
  When the kind has a status of its own, the error carries that status.
\<close>

theorem handleError_classification:
  "kind_of (handleError config e) = Some (spec_classify e) \<and>
   (\<forall>s. canonical_status (spec_classify e) = Some s \<longrightarrow>
        err_status (handleError config e) = Some s)"
proof (cases "ax_response e")
  case None
  then show ?thesis
    by (simp add: handleError_def spec_classify_def kind_of_simps err_status_simps
        canonical_status_def)
next
  case (Some r)
  then show ?thesis
    by (auto simp add: handleError_def spec_classify_def kind_of_createErrorFromResponse
        err_status_createErrorFromResponse canonical_status_def spec_kind_of_status_def
        split: if_splits)
qed

theorem handleError_classification_witness:
  "kind_of (handleError test_config
      \<lparr>ax_response = Some \<lparr>resp_status = 429, resp_data = None\<rparr>, ax_code = None,
       ax_message = ''Request failed with status code 429''\<rparr>) = Some RateLimit \<and>
   err_status (handleError test_config
      \<lparr>ax_response = Some \<lparr>resp_status = 429, resp_data = None\<rparr>, ax_code = None,
       ax_message = ''Request failed with status code 429''\<rparr>) = Some 429"
  using handleError_classification[of test_config
      "\<lparr>ax_response = Some \<lparr>resp_status = 429, resp_data = None\<rparr>, ax_code = None,
        ax_message = ''Request failed with status code 429''\<rparr>"]
  by (simp add: spec_classify_def spec_kind_of_status_def canonical_status_def)

section \<open>Properties of the request executor\<close>

lemma retry_loop_retryable:
  assumes "\<forall>i. a \<le> i \<and> i \<le> n \<longrightarrow> (\<exists>t. requestFn i = Inl t \<and> \<not> no_retry_status (as_aispine_error t))"
    and "a \<le> n"
  shows "retry_loop debug (int n) requestFn a lastError =
           (concat (map (retry_events debug (int n)) [a..<n]) @ [Attempt n],
            Threw (Some (as_aispine_error (projl (requestFn n)))))"
  using assms
proof (induction "n - a" arbitrary: a lastError)
  case 0
  then have an: "a = n" by simp
  from 0 obtain t where t: "requestFn n = Inl t" "\<not> no_retry_status (as_aispine_error t)"
    using an by blast
  show ?case
    by (subst retry_loop.simps) (simp add: an t)
next
  case (Suc d)
  then have lt: "a < n" by simp
  from Suc.prems lt obtain t where t: "requestFn a = Inl t" "\<not> no_retry_status (as_aispine_error t)"
    by (metis le_refl less_imp_le_nat)
  have ih: "retry_loop debug (int n) requestFn (Suc a) (Some (as_aispine_error t)) =
           (concat (map (retry_events debug (int n)) [Suc a..<n]) @ [Attempt n],
            Threw (Some (as_aispine_error (projl (requestFn n)))))"
    using Suc.hyps(1)[of "Suc a"] Suc.hyps(2) Suc.prems lt by auto
  have upt: "[a..<n] = a # [Suc a..<n]" using lt by (simp add: upt_conv_Cons)
  show ?case
    by (subst retry_loop.simps) (use lt in \<open>simp add: t ih upt retry_events_def\<close>)
qed

lemma filter_retry_events:
  "filter (\<lambda>e. \<not> is_retry_log e) (concat (map (retry_events debug m) xs)) =
   concat (map (\<lambda>a. [Attempt a, Sleep (min (1000 * 2 ^ a) 10000)]) xs)"
  by (induction xs) (simp_all add: retry_events_def is_retry_log_def retry_delay_def)

lemma attempts_made_append: "attempts_made (xs @ ys) = attempts_made xs @ attempts_made ys"
  by (simp add: attempts_made_def)

lemma delays_slept_append: "delays_slept (xs @ ys) = delays_slept xs @ delays_slept ys"
  by (simp add: delays_slept_def)

lemma attempts_retry_events:
  "attempts_made (concat (map (retry_events debug m) xs)) = xs"
  by (induction xs) (simp_all add: retry_events_def attempts_made_def)

lemma delays_retry_events:
  "delays_slept (concat (map (retry_events debug m) xs)) = map (\<lambda>a. min (1000 * 2 ^ a) 10000) xs"
  by (induction xs) (simp_all add: retry_events_def delays_slept_def retry_delay_def)

lemma single_attempt_simps:
  "\<not> is_retry_log (Attempt n)" "attempts_made [Attempt n] = [n]" "delays_slept [Attempt n] = []"
  by (simp_all add: is_retry_log_def attempts_made_def delays_slept_def)

lemma err_name_server:
  "s \<in> {500, 502, 503, 504} \<Longrightarrow> err_name (createErrorFromResponse s data m) = ''ServerError''"
  by (auto simp add: createErrorFromResponse_def Let_def ServerError_def)

lemma http_request_failure:
  assumes "failure_status (transport i) = Some s"
  shows "\<exists>data m. http_request config transport i =
           Inl (SpineError (createErrorFromResponse s data m))"
proof (cases "transport i")
  case (Inl e)
  with assms obtain r where r: "ax_response e = Some r" "resp_status r = s"
    by (auto simp add: failure_status_def)
  show ?thesis
    by (simp add: http_request_def Inl handleError_def r) blast
next
  case (Inr r)
  with assms show ?thesis by (simp add: failure_status_def)
qed

lemma server_failure_retryable:
  assumes "failure_status (transport i) = Some s" and "s \<in> {500, 502, 503, 504}"
  shows "\<exists>t. http_request config transport i = Inl t \<and> \<not> no_retry_status (as_aispine_error t) \<and>
             kind_of (as_aispine_error t) = Some Server \<and>
             err_name (as_aispine_error t) = ''ServerError'' \<and>
             err_status (as_aispine_error t) = Some s"
proof -
  from http_request_failure[where transport=transport and i=i, OF assms(1)] obtain data m where
    h: "http_request config transport i = Inl (SpineError (createErrorFromResponse s data m))"
    by blast
  have k: "spec_kind_of_status s = Server" using assms(2) by (auto simp add: spec_kind_of_status_def)
  have n: "\<not> no_retry_status (createErrorFromResponse s data m)"
    using assms(2) by (auto simp add: no_retry_status_def err_status_createErrorFromResponse)
  have "kind_of (createErrorFromResponse s data m) = Some Server"
    by (simp add: kind_of_createErrorFromResponse k)
  moreover have "err_name (createErrorFromResponse s data m) = ''ServerError''"
    using assms(2) by (rule err_name_server)
  moreover have "err_status (createErrorFromResponse s data m) = Some s"
    by (rule err_status_createErrorFromResponse)
  ultimately show ?thesis
    using n by (simp add: h as_aispine_error_def)
qed

text \<open>
  C1: when every attempt of a request fails with a response of status 500, 502, 503 or
  504, \<open>executeWithRetry\<close> makes exactly \<open>maxRetries + 1\<close> attempts, sleeps
  \<open>min(1000 * 2^attempt, 10000)\<close> milliseconds between consecutive attempts, and then
  throws a \<open>ServerError\<close> that carries the status of the last response. The retry count
  is a non-negative integer.
\<close>

theorem executeWithRetry_server_errors:
  assumes retries: "maxRetries = (case opt_retries options of None \<Rightarrow> cfg_retries config | Some r \<Rightarrow> r)"
    and nonneg: "0 \<le> maxRetries"
    and failing: "\<forall>i\<le>nat maxRetries.
                    failure_status (transport i) \<in> {Some 500, Some 502, Some 503, Some 504}"
  shows "filter (\<lambda>e. \<not> is_retry_log e)
           (fst (executeWithRetry config (http_request config transport) options)) =
           backoff_schedule (nat maxRetries) \<and>
         length (attempts_made (fst (executeWithRetry config (http_request config transport) options))) =
           nat maxRetries + 1 \<and>
         delays_slept (fst (executeWithRetry config (http_request config transport) options)) =
           map (\<lambda>a. min (1000 * 2 ^ a) 10000) [0..<nat maxRetries] \<and>
         (\<exists>e. snd (executeWithRetry config (http_request config transport) options) = Threw (Some e) \<and>
              kind_of e = Some Server \<and> err_name e = ''ServerError'' \<and>
              err_status e = failure_status (transport (nat maxRetries)))"
proof -
  let ?n = "nat maxRetries"
  let ?rf = "http_request config transport"
  have each: "\<exists>t. ?rf i = Inl t \<and> \<not> no_retry_status (as_aispine_error t) \<and>
             kind_of (as_aispine_error t) = Some Server \<and>
             err_name (as_aispine_error t) = ''ServerError'' \<and>
             err_status (as_aispine_error t) = failure_status (transport i)" if "i \<le> ?n" for i
  proof -
    from failing that obtain s where s: "failure_status (transport i) = Some s" "s \<in> {500, 502, 503, 504}"
      by auto
    from server_failure_retryable[where transport=transport and i=i and config=config, OF s] show ?thesis by (simp add: s(1))
  qed
  have mr: "(case opt_retries options of None \<Rightarrow> cfg_retries config | Some r \<Rightarrow> r) = int ?n"
    using retries nonneg by simp
  have prem: "\<forall>i. 0 \<le> i \<and> i \<le> ?n \<longrightarrow>
                (\<exists>t. ?rf i = Inl t \<and> \<not> no_retry_status (as_aispine_error t))"
    using each by blast
  have run: "executeWithRetry config ?rf options =
          (concat (map (retry_events (cfg_debug config) (int ?n)) [0..<?n]) @ [Attempt ?n],
           Threw (Some (as_aispine_error (projl (?rf ?n)))))"
    unfolding executeWithRetry_def Let_def mr
    by (rule retry_loop_retryable[OF prem]) simp
  from each[of ?n] obtain t where t: "?rf ?n = Inl t"
      "kind_of (as_aispine_error t) = Some Server" "err_name (as_aispine_error t) = ''ServerError''"
      "err_status (as_aispine_error t) = failure_status (transport ?n)"
    by auto
  show ?thesis
    by (simp add: run filter_retry_events attempts_made_append delays_slept_append
        attempts_retry_events delays_retry_events single_attempt_simps backoff_schedule_def t)
qed

lemma test_config_retries: "cfg_retries test_config = 3"
  by (simp add: test_config_def client_constructor_def no_config_def truthy_number_def Let_def)

theorem executeWithRetry_server_errors_witness:
  "filter (\<lambda>e. \<not> is_retry_log e)
     (fst (executeWithRetry test_config (http_request test_config (always_status 503))
             (no_options\<lparr>opt_retries := Some 5\<rparr>))) =
     [Attempt 0, Sleep 1000, Attempt 1, Sleep 2000, Attempt 2, Sleep 4000, Attempt 3, Sleep 8000,
      Attempt 4, Sleep 10000, Attempt 5] \<and>
   (\<exists>e. snd (executeWithRetry test_config (http_request test_config (always_status 503))
             (no_options\<lparr>opt_retries := Some 5\<rparr>)) = Threw (Some e) \<and>
        kind_of e = Some Server \<and> err_status e = Some 503)"
  using executeWithRetry_server_errors[where maxRetries=5 and config=test_config
      and options="no_options\<lparr>opt_retries := Some 5\<rparr>" and transport="always_status 503"]
  by (auto simp add: no_options_def always_status_def failure_status_def backoff_schedule_def
      upt_rec[of _ "numeral _"])

lemma retry_loop_no_retry:
  assumes "requestFn a = Inl t" and "no_retry_status (as_aispine_error t)" and "int a \<le> maxRetries"
  shows "retry_loop debug maxRetries requestFn a lastError =
           ([Attempt a], Threw (Some (as_aispine_error t)))"
  by (subst retry_loop.simps) (simp add: assms)

text \<open>
  C2: when the first attempt fails with a response of status 400, 401, 403 or 404,
  \<open>executeWithRetry\<close> makes that one attempt only, sleeps no delay, and throws the error
  of kind validation, authentication, authorization or not-found respectively, whatever
  the retry budget.
\<close>

theorem executeWithRetry_client_errors:
  assumes retries: "maxRetries = (case opt_retries options of None \<Rightarrow> cfg_retries config | Some r \<Rightarrow> r)"
    and nonneg: "0 \<le> maxRetries"
    and first: "failure_status (transport 0) = Some s"
    and client: "s \<in> {400, 401, 403, 404}"
  shows "fst (executeWithRetry config (http_request config transport) options) = [Attempt 0] \<and>
         (\<exists>e. snd (executeWithRetry config (http_request config transport) options) = Threw (Some e) \<and>
              err_status e = Some s \<and>
              kind_of e = Some (if s = 400 then Validation else if s = 401 then Authentication
                                else if s = 403 then Authorization else NotFound))"
proof -
  from http_request_failure[where transport=transport and i=0, OF first] obtain data m where
    h: "http_request config transport 0 = Inl (SpineError (createErrorFromResponse s data m))"
    by blast
  let ?e = "createErrorFromResponse s data m"
  have st: "err_status ?e = Some s" by (rule err_status_createErrorFromResponse)
  have stop: "no_retry_status (as_aispine_error (SpineError ?e))"
    using client by (auto simp add: no_retry_status_def as_aispine_error_def st)
  have run: "executeWithRetry config (http_request config transport) options =
               ([Attempt 0], Threw (Some ?e))"
    unfolding executeWithRetry_def Let_def
    using retry_loop_no_retry[where requestFn="http_request config transport" and a=0 and maxRetries=maxRetries and debug="cfg_debug config" and lastError=None, OF h stop] retries nonneg
    by (simp add: as_aispine_error_def)
  have k: "kind_of ?e = Some (if s = 400 then Validation else if s = 401 then Authentication
                                else if s = 403 then Authorization else NotFound)"
    using client by (auto simp add: kind_of_createErrorFromResponse spec_kind_of_status_def)
  show ?thesis
    using st k by (simp add: run)
qed

theorem executeWithRetry_client_errors_witness:
  "fst (executeWithRetry test_config (http_request test_config (always_status 404)) no_options) =
     [Attempt 0] \<and>
   (\<exists>e. snd (executeWithRetry test_config (http_request test_config (always_status 404)) no_options) =
          Threw (Some e) \<and> err_status e = Some 404 \<and> kind_of e = Some NotFound)"
  using executeWithRetry_client_errors[where maxRetries=3 and config=test_config
      and options=no_options and transport="always_status 404" and s=404]
  by (simp add: no_options_def always_status_def failure_status_def test_config_retries)

lemma retry_loop_zero:
  "retry_loop debug 0 requestFn 0 lastError =
     ([Attempt 0],
      case requestFn 0 of
        Inr response \<Rightarrow> Returned (to_sdk_response response)
      | Inl t \<Rightarrow> Threw (Some (as_aispine_error t)))"
  by (subst retry_loop.simps) (simp split: sum.splits)

text \<open>
  C9: a client constructed with \<open>retries: 0\<close> has 3 effective retries and one constructed
  with \<open>timeout: 0\<close> has an effective timeout of 30000 ms (the defaults are applied with
  \<open>||\<close>), while a per-call option \<open>retries: 0\<close> is honoured: the HTTP method makes one
  attempt and never sleeps.
\<close>

theorem falsy_defaults_and_per_call_zero:
  "cfg_retries (snd (client_constructor (ConfigObject (c\<lparr>in_retries := Some 0\<rparr>)))) = 3 \<and>
   cfg_timeout (snd (client_constructor (ConfigObject (c\<lparr>in_timeout := Some 0\<rparr>)))) = 30000 \<and>
   fst (client_get config transport (options\<lparr>opt_retries := Some 0\<rparr>)) = [Attempt 0] \<and>
   attempts_made (fst (client_get config transport (options\<lparr>opt_retries := Some 0\<rparr>))) = [0] \<and>
   delays_slept (fst (client_get config transport (options\<lparr>opt_retries := Some 0\<rparr>))) = []"
  by (simp add: client_constructor_def truthy_number_def Let_def client_get_def
      executeWithRetry_def retry_loop_zero single_attempt_simps)

section \<open>Properties of the webhook signature\<close>

lemma hex_digits_table:
  "list_all (\<lambda>n. hex_value (hex_digit n) = Some n \<and> hex_digit n \<noteq> CHR '','' \<and>
                 hex_digit n \<noteq> CHR ''='') [0..<16]"
  by code_simp

lemma hex_value_hex_digit: "n < 16 \<Longrightarrow> hex_value (hex_digit n) = Some n"
  using hex_digits_table by (simp add: list_all_iff)

lemma hex_digit_not_separator:
  "hex_digit n \<noteq> CHR '',''" "hex_digit n \<noteq> CHR ''=''"
  "CHR '','' \<noteq> hex_digit n" "CHR ''='' \<noteq> hex_digit n"
proof -
  have "n mod 16 \<in> set [0..<16]" by simp
  moreover have "hex_digit n = hex_digit (n mod 16)" by (simp add: hex_digit_def)
  ultimately have "hex_digit n \<noteq> CHR '','' \<and> hex_digit n \<noteq> CHR ''=''"
    using hex_digits_table unfolding list_all_iff by metis
  then show "hex_digit n \<noteq> CHR '',''" "hex_digit n \<noteq> CHR ''=''"
    "CHR '','' \<noteq> hex_digit n" "CHR ''='' \<noteq> hex_digit n"
    by auto
qed

lemma hex_decode_encode: "hex_decode (hex_encode bs) = bs"
proof (induction bs)
  case Nil
  show ?case by (simp add: hex_encode_def)
next
  case (Cons b bs)
  have lt: "unat b div 16 < 16"
  proof -
    have "unat b < 2 ^ LENGTH(8)" by (rule unsigned_less)
    then show ?thesis by simp
  qed
  have "hex_encode (b # bs) = hex_digit (unat b div 16) # hex_digit (unat b mod 16) # hex_encode bs"
    by (simp add: hex_encode_def hex_of_byte_def)
  then show ?case
    using Cons lt by (simp add: hex_value_hex_digit)
qed

lemma hex_encode_no_separator:
  "CHR '','' \<notin> set (hex_encode bs) \<and> CHR ''='' \<notin> set (hex_encode bs)"
  by (induction bs) (simp_all add: hex_encode_def hex_of_byte_def hex_digit_not_separator)

lemma split_on_absent: "c \<notin> set s \<Longrightarrow> split_on c s = [s]"
  by (induction s) auto

lemma split_on_first: "c \<notin> set a \<Longrightarrow> split_on c (a @ c # b) = a # split_on c b"
  by (induction a) auto


lemma parse_generated:
  assumes "CHR '','' \<notin> set t" and "CHR ''='' \<notin> set t"
  shows "parse_elements (split_on CHR '','' (''t='' @ t @ '',v1='' @ hex_encode bs)) None [] =
           (Some t, [Some (hex_encode bs)])"
proof -
  have "split_on CHR '','' (''t='' @ t @ '',v1='' @ hex_encode bs) =
          (''t='' @ t) # split_on CHR '','' (''v1='' @ hex_encode bs)"
    using split_on_first[of "CHR '',''" "''t='' @ t" "''v1='' @ hex_encode bs"] assms(1) by simp
  also have "split_on CHR '','' (''v1='' @ hex_encode bs) = [''v1='' @ hex_encode bs]"
    by (rule split_on_absent) (simp add: hex_encode_no_separator)
  finally have elems: "split_on CHR '','' (''t='' @ t @ '',v1='' @ hex_encode bs) =
                   [''t='' @ t, ''v1='' @ hex_encode bs]" .
  have p1: "split_on CHR ''='' (CHR ''t'' # CHR ''='' # t) = [''t'', t]"
    using split_on_absent[OF assms(2)] by simp
  have p2: "split_on CHR ''='' (CHR ''v'' # CHR ''1'' # CHR ''='' # hex_encode bs) =
              [''v1'', hex_encode bs]"
    using split_on_absent[of "CHR ''=''" "hex_encode bs"] hex_encode_no_separator[of bs]
    by simp
  show ?thesis
    unfolding elems by (simp add: p1 p2 Let_def del: split_on.simps)
qed

lemma hex_encode_length: "length (hex_encode bs) = 2 * length bs"
  by (induction bs) (simp_all add: hex_encode_def hex_of_byte_def)

lemma hex_digit_lower: "hex_digit n \<in> set ''0123456789abcdef''"
proof -
  have "n mod 16 < length ''0123456789abcdef''" by simp
  then show ?thesis unfolding hex_digit_def by (rule nth_mem)
qed

lemma hex_encode_lower: "list_all (\<lambda>c. c \<in> set ''0123456789abcdef'') (hex_encode bs)"
  using hex_digit_lower by (induction bs) (simp_all add: hex_encode_def hex_of_byte_def)

lemma matches_own_digest:
  "some_signature_matches (hex_decode (hex_encode bs)) [Some (hex_encode bs)] = Inr True"
  by simp

lemma generate_header:
  "generate hmac \<lparr>sig_secret = secret, sig_timestamp = t, sig_payload = payload\<rparr> =
     ''t='' @ t @ '',v1='' @ hex_encode (hmac secret (t @ ''.'' @ payload))"
  by (simp add: generate_def Let_def)

lemma verify_generated:
  assumes "t \<noteq> []" and "CHR '','' \<notin> set t" and "CHR ''='' \<notin> set t"
  shows "verify hmac now
           (generate hmac \<lparr>sig_secret = secret, sig_timestamp = t, sig_payload = payload\<rparr>)
           payload secret tolerance =
         (if timestamp_too_old now t (case tolerance of None \<Rightarrow> 300 | Some x \<Rightarrow> x)
          then \<lparr>valid = False, error = Some ''Timestamp outside tolerance window''\<rparr>
          else \<lparr>valid = True, error = None\<rparr>)"
  unfolding verify_def generate_header Let_def parse_generated[OF assms(2,3)]
  using assms(1)
  by (simp add: truthy_string_def matches_own_digest del: some_signature_matches.simps)

lemma trim_start_none: "white_space_length (map of_char s) = 0 \<Longrightarrow> trim_start s = s"
  by (subst trim_start.simps) simp

lemma parse_integer_nonempty: "parse_integer t = Some n \<Longrightarrow> t \<noteq> []"
  by (auto simp add: parse_integer_def trim_start_none white_space_length_def)

lemma digit_facts:
  assumes "is_digit c"
  shows "white_space_length (map of_char (c # rest)) = 0" and "c \<noteq> CHR ''-''"
    and "c \<noteq> CHR ''+''" and "c \<noteq> CHR '',''" and "c \<noteq> CHR ''=''"
  using assms by (auto simp add: is_digit_def white_space_length_def)

lemma parse_integer_digits:
  assumes "t \<noteq> []" and "list_all is_digit t"
  shows "parse_integer t = Some (int (digits_value t))"
proof -
  from assms obtain c rest where t: "t = c # rest" by (cases t) auto
  with assms(2) have c: "is_digit c" by simp
  have tw: "takeWhile is_digit t = t"
    using assms(2) by (simp add: takeWhile_eq_all_conv list_all_iff)
  have "parse_digits t = Some (digits_value t)"
    using assms(1) by (simp add: parse_digits_def tw)
  moreover have "trim_start t = t"
    unfolding t by (rule trim_start_none) (rule digit_facts(1)[OF c])
  ultimately show ?thesis
    using digit_facts(2,3)[OF c] by (simp add: parse_integer_def t)
qed

lemma digits_no_separator:
  assumes "list_all is_digit t"
  shows "CHR '','' \<notin> set t" and "CHR ''='' \<notin> set t"
  using assms digit_facts(4,5) by (auto simp add: list_all_iff)

lemma round_double_safe: "safe_integer x \<Longrightarrow> round_double x = Finite x"
  by (simp add: round_double_def safe_integer_def)

lemma safe_integer_factor: "safe_integer (x * 1000) \<Longrightarrow> safe_integer x"
  by (auto simp add: safe_integer_def abs_mult)

lemma timestamp_too_old_exact:
  assumes "parse_integer ts = Some n"
    and "safe_integer now" and "safe_integer (n * 1000)" and "safe_integer (tol * 1000)"
    and "safe_integer (now - n * 1000)"
  shows "timestamp_too_old now ts tol = (now - n * 1000 > tol * 1000)"
  using assms safe_integer_factor[OF assms(3)] safe_integer_factor[OF assms(4)]
  by (simp add: timestamp_too_old_def parseInt_def js_times_1000_def js_minus_def js_greater_def
      round_double_safe)

text \<open>
  C5, as amended: for every secret, payload and timestamp \<open>t\<close> (a string that reads as
  the integer \<open>n\<close> of Unix seconds and holds neither of the header's separators, as every
  decimal digit string does), \<open>generate\<close> returns \<open>t=<t>,v1=<h>\<close>, where \<open>h\<close> is the
  digest of \<open><t>.<payload>\<close> under the secret written as two lower-case hexadecimal digits
  per byte, and verifying that header against the same payload and secret returns
  \<open>{valid: true}\<close> whenever \<open>now\<close> is within the tolerance window of \<open>t\<close> and the
  millisecond values \<open>now\<close>, \<open>n * 1000\<close> and \<open>tolerance * 1000\<close> are safe integers, so that
  the window is computed exactly. This holds whatever the digest function computes.
\<close>

theorem verify_generate_roundtrip:
  assumes "parse_integer t = Some n" and "CHR '','' \<notin> set t" and "CHR ''='' \<notin> set t"
    and "safe_integer now" and "safe_integer (n * 1000)"
    and "safe_integer ((case tolerance of None \<Rightarrow> 300 | Some x \<Rightarrow> x) * 1000)"
    and "\<bar>now - n * 1000\<bar> \<le> (case tolerance of None \<Rightarrow> 300 | Some x \<Rightarrow> x) * 1000"
  shows "generate hmac \<lparr>sig_secret = secret, sig_timestamp = t, sig_payload = payload\<rparr> =
           ''t='' @ t @ '',v1='' @ hex_encode (hmac secret (t @ ''.'' @ payload)) \<and>
         length (hex_encode (hmac secret (t @ ''.'' @ payload))) =
           2 * length (hmac secret (t @ ''.'' @ payload)) \<and>
         list_all (\<lambda>c. c \<in> set ''0123456789abcdef'') (hex_encode (hmac secret (t @ ''.'' @ payload))) \<and>
         hex_decode (hex_encode (hmac secret (t @ ''.'' @ payload))) = hmac secret (t @ ''.'' @ payload) \<and>
         verify hmac now
           (generate hmac \<lparr>sig_secret = secret, sig_timestamp = t, sig_payload = payload\<rparr>)
           payload secret tolerance = \<lparr>valid = True, error = None\<rparr>"
proof -
  let ?tol = "case tolerance of None \<Rightarrow> 300 | Some x \<Rightarrow> x"
  have diff: "safe_integer (now - n * 1000)"
    using assms(6,7) by (simp add: safe_integer_def)
  have fresh: "\<not> timestamp_too_old now t ?tol"
    using timestamp_too_old_exact[OF assms(1,4,5,6) diff] assms(7) by simp
  have "verify hmac now
           (generate hmac \<lparr>sig_secret = secret, sig_timestamp = t, sig_payload = payload\<rparr>)
           payload secret tolerance = \<lparr>valid = True, error = None\<rparr>"
    using verify_generated[OF parse_integer_nonempty[OF assms(1)] assms(2,3), of hmac now secret payload tolerance]
      fresh by simp
  then show ?thesis
    using generate_header[of hmac secret t payload]
      hex_encode_length[of "hmac secret (t @ ''.'' @ payload)"]
      hex_encode_lower[of "hmac secret (t @ ''.'' @ payload)"]
      hex_decode_encode[of "hmac secret (t @ ''.'' @ payload)"]
    by blast
qed

lemma sample_timestamps:
  "is_digit CHR ''0''" "is_digit CHR ''1''" "is_digit CHR ''7''"
  "digits_value ''1700000000'' = 1700000000"
  "digits_value ''1700001000'' = 1700001000"
  by (simp_all add: is_digit_def digits_value_def digit_value_def)

lemma sample_parse:
  "parse_integer ''1700000000'' = Some 1700000000"
  "parse_integer ''1700001000'' = Some 1700001000"
  using parse_integer_digits[of "''1700000000''"] parse_integer_digits[of "''1700001000''"]
  by (simp_all add: sample_timestamps)

lemma sample_digest:
  "hex_encode (sample_hmac ''k'' ''1700000000.p'') = ''6b313730303030303030302e70''"
  by (simp add: sample_hmac_def hex_encode_def hex_of_byte_def hex_digit_def)

theorem verify_generate_roundtrip_witness:
  "generate sample_hmac \<lparr>sig_secret = ''k'', sig_timestamp = ''1700000000'', sig_payload = ''p''\<rparr> =
     ''t=1700000000,v1=6b313730303030303030302e70'' \<and>
   verify sample_hmac 1700000100000 ''t=1700000000,v1=6b313730303030303030302e70''
     ''p'' ''k'' (Some 300) = \<lparr>valid = True, error = None\<rparr>"
proof -
  have sep: "CHR '','' \<notin> set ''1700000000''" "CHR ''='' \<notin> set ''1700000000''"
    by simp_all
  have safe: "safe_integer 1700000100000" "safe_integer (1700000000 * 1000)"
    "safe_integer ((case Some 300 of None \<Rightarrow> 300 | Some x \<Rightarrow> x) * 1000)"
    by (simp_all add: safe_integer_def)
  have window: "\<bar>1700000100000 - 1700000000 * 1000\<bar> \<le>
                  (case Some 300 of None \<Rightarrow> 300 | Some x \<Rightarrow> x) * (1000::int)"
    by simp
  note rt = verify_generate_roundtrip[OF sample_parse(1) sep safe window,
      where hmac=sample_hmac and secret="''k''" and payload="''p''"]
  have g: "generate sample_hmac
             \<lparr>sig_secret = ''k'', sig_timestamp = ''1700000000'', sig_payload = ''p''\<rparr> =
           ''t=1700000000,v1=6b313730303030303030302e70''"
    using rt[THEN conjunct1] sample_digest by simp
  show ?thesis
  proof (intro conjI)
    show "generate sample_hmac
             \<lparr>sig_secret = ''k'', sig_timestamp = ''1700000000'', sig_payload = ''p''\<rparr> =
           ''t=1700000000,v1=6b313730303030303030302e70''"
      by (rule g)
    show "verify sample_hmac 1700000100000 ''t=1700000000,v1=6b313730303030303030302e70''
            ''p'' ''k'' (Some 300) = \<lparr>valid = True, error = None\<rparr>"
      using rt[THEN conjunct2, THEN conjunct2, THEN conjunct2, THEN conjunct2]
      by (simp only: g)
  qed
qed

lemma far_past_parse: "parse_integer ''-72057594037931'' = Some (- 72057594037931)"
  by (simp add: parse_integer_def trim_start_none white_space_length_def parse_digits_def
      is_digit_def digits_value_def digit_value_def)

lemma far_past_bits:
  "bit_length 72057594037931000 = 57" "bit_length 72059294037933008 = 57"
  "bit_length 72059294037933000 = 57"
  by (simp_all add: bit_length.simps)

lemma far_past_rounding:
  "round_double (- 72057594037931000) = Finite (- 72057594037931008)"
  "round_double 72059294037933008 = Finite 72059294037933008"
  "round_double 72059294037933000 = Finite 72059294037932992"
  by (simp_all add: round_double_def Let_def far_past_bits)

lemma far_past_too_old: "timestamp_too_old 1700000002000 ''-72057594037931'' 72059294037933"
  by (simp add: timestamp_too_old_def parseInt_def far_past_parse js_times_1000_def js_minus_def
      js_greater_def round_double_safe safe_integer_def far_past_rounding)

text \<open>
  Without the bound the claim fails: for a timestamp far in the past and a tolerance that
  puts \<open>now\<close> exactly on the edge of the window, the doubles round the difference up and
  the bound down, and the generated header is rejected as too old.
\<close>

theorem verify_generate_rounding_counterexample:
  "parse_integer ''-72057594037931'' = Some (- 72057594037931) \<and>
   \<bar>1700000002000 - (- 72057594037931) * 1000\<bar> \<le> 72059294037933 * (1000::int) \<and>
   verify sample_hmac 1700000002000
     (generate sample_hmac
        \<lparr>sig_secret = ''k'', sig_timestamp = ''-72057594037931'', sig_payload = ''p''\<rparr>)
     ''p'' ''k'' (Some 72059294037933) =
     \<lparr>valid = False, error = Some ''Timestamp outside tolerance window''\<rparr>"
proof -
  have "verify sample_hmac 1700000002000
     (generate sample_hmac
        \<lparr>sig_secret = ''k'', sig_timestamp = ''-72057594037931'', sig_payload = ''p''\<rparr>)
     ''p'' ''k'' (Some 72059294037933) =
     \<lparr>valid = False, error = Some ''Timestamp outside tolerance window''\<rparr>"
    using verify_generated[of "''-72057594037931''" sample_hmac 1700000002000 "''k''" "''p''"
        "Some 72059294037933"] far_past_too_old
    by simp
  then show ?thesis
    using far_past_parse by simp
qed

lemma failure_message_differs:
  "''Signature verification failed: '' @ m \<noteq> ''Timestamp outside tolerance window''"
  by simp

lemma verify_parsed:
  assumes "parse_elements (split_on CHR '','' header) None [] = (Some ts, sigs)" and "ts \<noteq> []"
  shows "(verify hmac now header payload secret tolerance =
            \<lparr>valid = False, error = Some ''Timestamp outside tolerance window''\<rparr>) =
         timestamp_too_old now ts (case tolerance of None \<Rightarrow> 300 | Some x \<Rightarrow> x)"
  using assms
  by (cases "timestamp_too_old now ts (case tolerance of None \<Rightarrow> 300 | Some x \<Rightarrow> x)")
     (simp_all add: verify_def Let_def truthy_string_def split: sum.splits)

text \<open>
  C4, as amended: for a header whose timestamp element reads as the integer \<open>n\<close>, and
  millisecond values that are safe integers, \<open>verify\<close> returns
  \<open>{valid: false, error: "Timestamp outside tolerance window"}\<close> exactly when
  \<open>now_ms - n * 1000 > toleranceSeconds * 1000\<close>. The check is one-sided: a timestamp that
  is too old is rejected (400 s old under 300 s), one inside the window is not rejected on
  timestamp grounds (100 s old under 300 s), and under a tolerance that is not negative
  neither is a timestamp in the future, however far ahead.
\<close>

theorem verify_timestamp_tolerance:
  assumes "parse_elements (split_on CHR '','' header) None [] = (Some ts, sigs)"
    and "parse_integer ts = Some n"
    and "tol = (case tolerance of None \<Rightarrow> 300 | Some x \<Rightarrow> x)"
    and "safe_integer now" and "safe_integer (n * 1000)" and "safe_integer (tol * 1000)"
    and "safe_integer (now - n * 1000)"
  shows "((verify hmac now header payload secret tolerance =
             \<lparr>valid = False, error = Some ''Timestamp outside tolerance window''\<rparr>) =
          (now - n * 1000 > tol * 1000)) \<and>
         (0 \<le> tol \<and> now \<le> n * 1000 \<longrightarrow>
            verify hmac now header payload secret tolerance \<noteq>
              \<lparr>valid = False, error = Some ''Timestamp outside tolerance window''\<rparr>)"
proof -
  have "(verify hmac now header payload secret tolerance =
             \<lparr>valid = False, error = Some ''Timestamp outside tolerance window''\<rparr>) =
          (now - n * 1000 > tol * 1000)"
    using verify_parsed[OF assms(1) parse_integer_nonempty[OF assms(2)], of hmac now payload secret tolerance]
      timestamp_too_old_exact[OF assms(2,4,5,6,7)] assms(3)
    by simp
  then show ?thesis by auto
qed

theorem verify_timestamp_tolerance_witness:
  "verify sample_hmac 1700000400000 ''t=1700000000,v1=abcd'' ''{}'' ''whsec_test'' (Some 300) =
     \<lparr>valid = False, error = Some ''Timestamp outside tolerance window''\<rparr> \<and>
   verify sample_hmac 1700000100000 ''t=1700000000,v1=abcd'' ''{}'' ''whsec_test'' (Some 300) \<noteq>
     \<lparr>valid = False, error = Some ''Timestamp outside tolerance window''\<rparr> \<and>
   verify sample_hmac 1699999700000 ''t=1700000000,v1=abcd'' ''{}'' ''whsec_test'' (Some 300) \<noteq>
     \<lparr>valid = False, error = Some ''Timestamp outside tolerance window''\<rparr> \<and>
   verify sample_hmac 1699999700000 ''t=1700000000,v1=abcd'' ''{}'' ''whsec_test'' (Some (- 600)) =
     \<lparr>valid = False, error = Some ''Timestamp outside tolerance window''\<rparr>"
proof -
  have p: "parse_elements (split_on CHR '','' ''t=1700000000,v1=abcd'') None [] =
             (Some ''1700000000'', [Some ''abcd''])"
    by (simp add: Let_def)
  note th = verify_timestamp_tolerance[OF p sample_parse(1) refl, where hmac=sample_hmac
      and payload="''{}''" and secret="''whsec_test''"]
  show ?thesis
    using th[of 1700000400000 "Some 300"] th[of 1700000100000 "Some 300"]
      th[of 1699999700000 "Some 300"] th[of 1699999700000 "Some (- 600)"]
    by (simp add: safe_integer_def)
qed

text \<open>
  The two-sided reading fails: a timestamp 1000 s ahead of \<open>now\<close> is outside a 300 s
  window, and the signature generated for it verifies.
\<close>

theorem verify_future_timestamp_counterexample:
  "\<bar>(1700000000000::int) - 1700001000 * 1000\<bar> > 300 * 1000 \<and>
   verify sample_hmac 1700000000000
     (generate sample_hmac
        \<lparr>sig_secret = ''whsec_test'', sig_timestamp = ''1700001000'', sig_payload = ''{}''\<rparr>)
     ''{}'' ''whsec_test'' (Some 300) = \<lparr>valid = True, error = None\<rparr>"
proof -
  have fresh: "\<not> timestamp_too_old 1700000000000 ''1700001000'' 300"
    using timestamp_too_old_exact[OF sample_parse(2), of 1700000000000 300]
    by (simp add: safe_integer_def)
  have "verify sample_hmac 1700000000000
     (generate sample_hmac
        \<lparr>sig_secret = ''whsec_test'', sig_timestamp = ''1700001000'', sig_payload = ''{}''\<rparr>)
     ''{}'' ''whsec_test'' (Some 300) = \<lparr>valid = True, error = None\<rparr>"
    using verify_generated[of "''1700001000''" sample_hmac 1700000000000 "''whsec_test''" "''{}''"
        "Some 300"] fresh
    by simp
  then show ?thesis by simp
qed

section \<open>Properties of the handler registry\<close>

lemma registry_ok_entry:
  "registry_ok handlers \<Longrightarrow> map_get handlers t = Some hs \<Longrightarrow> hs \<noteq> [] \<and> distinct hs"
  by (auto simp add: registry_ok_def map_get_def list_all_iff dest: map_of_SomeD)

lemma map_get_registered:
  "t \<in> set (getRegisteredEvents handlers) \<Longrightarrow> \<exists>hs. map_get handlers t = Some hs"
  unfolding getRegisteredEvents_def map_get_def
  by (metis map_of_eq_None_iff not_None_eq set_map)

lemma registry_ok_update:
  "registry_ok handlers \<Longrightarrow> hs \<noteq> [] \<Longrightarrow> distinct hs \<Longrightarrow>
   registry_ok (map (\<lambda>(k, v). if k = t then (k, hs) else (k, v)) handlers)"
  by (induction handlers) (auto simp add: registry_ok_def split: if_splits)

lemma set_add_ok: "distinct hs \<Longrightarrow> set_add hs h \<noteq> [] \<and> distinct (set_add hs h)"
  by (auto simp add: set_add_def)

lemma registry_ok_on: "registry_ok handlers \<Longrightarrow> registry_ok (on t h handlers)"
proof (cases "map_of handlers t")
  case None
  assume ok: "registry_ok handlers"
  have absent: "\<forall>(k, v) \<in> set handlers. k \<noteq> t"
    using None by (force simp add: map_of_eq_None_iff)
  then have same: "map (\<lambda>(k, v). if k = t then (k, [h]) else (k, v)) handlers = handlers"
    by (induction handlers) auto
  have "on t h handlers = handlers @ [(t, [h])]"
    using None by (simp add: on_def map_get_def map_set_def set_add_def same Let_def map_add_def)
  then show ?thesis using ok by (simp add: registry_ok_def)
next
  case (Some hs)
  assume ok: "registry_ok handlers"
  have d: "distinct hs" using registry_ok_entry[OF ok, of t hs] Some by (simp add: map_get_def)
  have "on t h handlers = map (\<lambda>(k, v). if k = t then (k, set_add hs h) else (k, v)) handlers"
    using Some by (simp add: on_def map_get_def map_set_def)
  then show ?thesis
    using registry_ok_update[OF ok, of "set_add hs h" t] set_add_ok[OF d, of h] by simp
qed

lemma registry_ok_off: "registry_ok handlers \<Longrightarrow> registry_ok (off t h handlers)"
proof (cases "map_of handlers t")
  case None
  assume "registry_ok handlers"
  then show ?thesis using None by (simp add: off_def map_get_def)
next
  case (Some hs)
  assume ok: "registry_ok handlers"
  have d: "distinct hs" using registry_ok_entry[OF ok, of t hs] Some by (simp add: map_get_def)
  show ?thesis
  proof (cases "set_delete hs h = []")
    case True
    have "off t h handlers =
            filter (\<lambda>(k, v). k \<noteq> t) (map (\<lambda>(k, v). if k = t then (k, []) else (k, v)) handlers)"
      using Some True by (simp add: off_def map_get_def map_set_def map_delete_def)
    then show ?thesis
      using ok by (auto simp add: registry_ok_def list_all_iff split: if_splits)
  next
    case False
    have "distinct (set_delete hs h)" using d by (simp add: set_delete_def)
    moreover have "off t h handlers =
            map (\<lambda>(k, v). if k = t then (k, set_delete hs h) else (k, v)) handlers"
      using Some False by (simp add: off_def map_get_def map_set_def Let_def)
    ultimately show ?thesis
      using registry_ok_update[OF ok False, of t] by simp
  qed
qed

lemma registry_ok_apply_op: "registry_ok handlers \<Longrightarrow> registry_ok (apply_op op handlers)"
proof (cases op)
  case (On t h)
  assume "registry_ok handlers"
  then show ?thesis using On by (simp add: registry_ok_on)
next
  case (Off t h)
  assume "registry_ok handlers"
  then show ?thesis using Off by (simp add: registry_ok_off)
next
  case RemoveAll
  then show ?thesis by (simp add: removeAllHandlers_def registry_ok_def)
qed

lemma registry_ok_foldl:
  "registry_ok handlers \<Longrightarrow> registry_ok (foldl (\<lambda>handlers op. apply_op op handlers) handlers ops)"
  by (induction ops arbitrary: handlers) (simp_all add: registry_ok_apply_op)

lemma registry_ok_apply_ops: "registry_ok handlers \<Longrightarrow> registry_ok (apply_ops ops handlers)"
  unfolding apply_ops_def by (rule registry_ok_foldl)

lemma registry_ok_run_ops: "registry_ok (run_ops ops)"
  unfolding run_ops_def by (rule registry_ok_apply_ops) (simp add: registry_ok_def)

lemma map_get_off:
  "map_get (off t h handlers) t =
     (case map_get handlers t of
        None \<Rightarrow> None
      | Some hs \<Rightarrow> if set_delete hs h = [] then None else Some (set_delete hs h))"
proof (cases "map_of handlers t")
  case None
  then show ?thesis by (simp add: off_def map_get_def)
next
  case (Some hs)
  have upd: "map_of (map (\<lambda>(k, v). if k = t then (k, x) else (k, v)) handlers) t = Some x" for x
    using Some by (induction handlers) (auto split: if_splits)
  have del: "map_of (filter (\<lambda>(k, v). k \<noteq> t) r) t = None" for r :: handler_map
    by (induction r) auto
  show ?thesis
    using Some by (simp add: off_def map_get_def map_set_def map_delete_def Let_def upd del)
qed

lemma map_of_other_update:
  "t' \<noteq> t \<Longrightarrow> map_of (map (\<lambda>(k, v). if k = t then (k, x) else (k, v)) handlers) t' = map_of handlers t'"
  by (induction handlers) auto

lemma map_of_other_filter:
  "t' \<noteq> t \<Longrightarrow> map_of (filter (\<lambda>(k, v). k \<noteq> t) handlers) t' = map_of handlers t'"
  by (induction handlers) auto

lemma map_get_off_other: "t' \<noteq> t \<Longrightarrow> map_get (off t h handlers) t' = map_get handlers t'"
  by (cases "map_of handlers t")
     (simp_all add: off_def map_get_def map_set_def map_delete_def Let_def map_of_other_update
        map_of_other_filter)

lemma registered_off:
  "registered (off t h handlers) t h' = (registered handlers t h' \<and> h' \<noteq> h)"
proof (cases "map_get handlers t")
  case None
  then show ?thesis by (simp add: registered_def map_get_off)
next
  case (Some hs)
  show ?thesis
  proof (cases "set_delete hs h = []")
    case True
    then have "\<forall>x \<in> set hs. x = h" by (simp add: set_delete_def filter_empty_conv)
    then show ?thesis using True Some by (auto simp add: registered_def map_get_off)
  next
    case False
    then show ?thesis using Some by (auto simp add: registered_def map_get_off set_delete_def)
  qed
qed

lemma listed_iff_mapped:
  "(t \<in> set (getRegisteredEvents handlers)) = (map_get handlers t \<noteq> None)"
  by (simp add: getRegisteredEvents_def map_get_def map_of_eq_None_iff)

lemma listed_after_off:
  "(t \<in> set (getRegisteredEvents (off t h handlers))) = (\<exists>h'. h' \<noteq> h \<and> registered handlers t h')"
proof (cases "map_get handlers t")
  case None
  then show ?thesis by (simp add: listed_iff_mapped map_get_off registered_def)
next
  case (Some hs)
  have "(set_delete hs h \<noteq> []) = (\<exists>h'. h' \<noteq> h \<and> h' \<in> set hs)"
    by (auto simp add: set_delete_def filter_empty_conv)
  then show ?thesis using Some by (auto simp add: listed_iff_mapped map_get_off registered_def)
qed

lemma map_get_on:
  "map_get (on t h handlers) t =
     Some (case map_get handlers t of None \<Rightarrow> [h] | Some hs \<Rightarrow> set_add hs h)"
proof (cases "map_of handlers t")
  case None
  then have "map_of (map (\<lambda>(k, v). if k = t then (k, x) else (k, v)) handlers) t = None" for x
    by (induction handlers) (auto split: if_splits)
  then show ?thesis
    using None by (simp add: on_def map_get_def map_set_def Let_def map_add_def set_add_def)
next
  case (Some hs)
  have upd: "map_of (map (\<lambda>(k, v). if k = t then (k, x) else (k, v)) handlers) t = Some x" for x
    using Some by (induction handlers) (auto split: if_splits)
  show ?thesis
    using Some by (simp add: on_def map_get_def map_set_def upd)
qed

lemma registered_on:
  "registered (on t h handlers) t h' = (registered handlers t h' \<or> h' = h)"
  by (cases "map_get handlers t") (auto simp add: registered_def map_get_on set_add_def)

lemma map_get_on_other: "t' \<noteq> t \<Longrightarrow> map_get (on t h handlers) t' = map_get handlers t'"
  by (cases "map_of handlers t")
     (auto simp add: on_def map_get_def map_set_def Let_def map_add_def map_of_other_update
        split: option.splits)

text \<open>
  C8: after every sequence of \<open>on\<close>, \<open>off\<close> (and \<open>removeAllHandlers\<close>) calls, every event
  type listed by \<open>getRegisteredEvents\<close> has at least one handler and the registry maps no
  event type to an empty set. On such a registry \<open>off(t, h)\<close> removes \<open>h\<close> from the
  handlers of \<open>t\<close> and keeps the others, \<open>t\<close> stays listed exactly when another handler
  is left, and \<open>on(t, h)\<close> adds \<open>h\<close> to the handlers of \<open>t\<close>; neither touches the other
  event types.
\<close>

theorem registry_never_empty:
  "(\<forall>t \<in> set (getRegisteredEvents (run_ops ops)).
      \<exists>hs. map_get (run_ops ops) t = Some hs \<and> hs \<noteq> []) \<and>
   (\<forall>t. map_get (run_ops ops) t \<noteq> Some []) \<and>
   (\<forall>t h h'. registered (off t h (run_ops ops)) t h' = (registered (run_ops ops) t h' \<and> h' \<noteq> h)) \<and>
   (\<forall>t h. (t \<in> set (getRegisteredEvents (off t h (run_ops ops)))) =
           (\<exists>h'. h' \<noteq> h \<and> registered (run_ops ops) t h')) \<and>
   (\<forall>t h t'. t' \<noteq> t \<longrightarrow> map_get (off t h (run_ops ops)) t' = map_get (run_ops ops) t') \<and>
   (\<forall>t h h'. registered (on t h (run_ops ops)) t h' = (registered (run_ops ops) t h' \<or> h' = h)) \<and>
   (\<forall>t h t'. t' \<noteq> t \<longrightarrow> map_get (on t h (run_ops ops)) t' = map_get (run_ops ops) t')"
proof -
  have listed: "\<forall>t \<in> set (getRegisteredEvents (run_ops ops)).
                  \<exists>hs. map_get (run_ops ops) t = Some hs \<and> hs \<noteq> []"
    using registry_ok_entry[OF registry_ok_run_ops] map_get_registered by blast
  have nonempty: "\<forall>t. map_get (run_ops ops) t \<noteq> Some []"
    using registry_ok_entry[OF registry_ok_run_ops] by blast
  show ?thesis
    using listed nonempty
    by (simp add: registered_off listed_after_off map_get_off_other registered_on map_get_on_other)
qed

theorem registry_never_empty_witness:
  "getRegisteredEvents (run_ops [On ExecutionCompleted 7, On ExecutionCompleted 8, On Wildcard 9]) =
     [ExecutionCompleted, Wildcard] \<and>
   map_get (off ExecutionCompleted 7
              (run_ops [On ExecutionCompleted 7, On ExecutionCompleted 8, On Wildcard 9]))
     ExecutionCompleted = Some [8] \<and>
   getRegisteredEvents (off Wildcard 9
      (run_ops [On ExecutionCompleted 7, On ExecutionCompleted 8, On Wildcard 9])) =
     [ExecutionCompleted] \<and>
   getRegisteredEvents
     (run_ops [On ExecutionCompleted 7, On Wildcard 9, Off ExecutionCompleted 7]) = [Wildcard] \<and>
   map_get (run_ops [On ExecutionCompleted 7, On Wildcard 9, Off ExecutionCompleted 7]) Wildcard =
     Some [9]"
  using registry_never_empty[of "[On ExecutionCompleted 7, On Wildcard 9, Off ExecutionCompleted 7]"]
    registry_never_empty[of "[On ExecutionCompleted 7, On ExecutionCompleted 8, On Wildcard 9]"]
  by (simp add: run_ops_def apply_ops_def on_def off_def map_get_def map_set_def map_delete_def
      set_add_def set_delete_def getRegisteredEvents_def)

section \<open>Properties of the dispatch\<close>

lemma launch_all_no_throw:
  assumes "\<forall>k h. \<not> throws (fst (run k h event))"
  shows "launch_all run event k hs handlers =
           (map Invoke hs, promises run event k hs, None, launch_registry run event k hs handlers)"
proof (induction hs arbitrary: k handlers)
  case Nil
  show ?case by simp
next
  case (Cons h hs)
  obtain out ops where r: "run k h event = (out, ops)" by (cases "run k h event")
  have "\<not> throws (fst (run k h event))" using assms by blast
  then have "\<not> throws out" by (simp add: r)
  then show ?case
    by (cases out) (simp_all add: r Cons throws_def promise_of_def)
qed

lemma dispatch_group_no_throw:
  assumes "\<forall>k h. \<not> throws (fst (run k h event))"
  shows "dispatch_group run event k label hs handlers await_ops =
           (map Invoke hs @ [AwaitAll hs] @ rejection_logs label (promises run event k hs),
            if Pending \<in> set (promises run event k hs) then NeverSettles else Resolved,
            apply_ops await_ops (launch_registry run event k hs handlers))"
  by (simp add: dispatch_group_def launch_all_no_throw[where run=run and event=event, OF assms])

lemma filter_rejection_logs:
  "filter (\<lambda>e. \<not> is_console_error e) (rejection_logs label ps) = []"
  by (induction ps) (simp_all add: rejection_logs_def is_console_error_def split: promise_state.splits)

lemma filter_launches:
  "filter (\<lambda>e. \<not> is_console_error e) (map Invoke hs) = map Invoke hs"
  "\<not> is_console_error (AwaitAll hs)"
  by (induction hs) (simp_all add: is_console_error_def)

lemma emit_wildcard_no_throw:
  assumes "\<forall>k h. \<not> throws (fst (run k h event))"
  shows "filter (\<lambda>e. \<not> is_console_error e) (fst (emit_wildcard run during_await handlers event k)) =
           group_events (map_get handlers Wildcard) \<and>
         fst (snd (emit_wildcard run during_await handlers event k)) =
           (if group_stalls run event k (map_get handlers Wildcard) then NeverSettles else Resolved)"
  by (cases "map_get handlers Wildcard")
     (simp_all add: emit_wildcard_def dispatch_group_no_throw[where run=run and event=event, OF assms]
       group_events_def group_stalls_def filter_rejection_logs filter_launches)

lemma emit_no_throw:
  assumes "\<forall>k h. \<not> throws (fst (run k h event))"
  shows "filter (\<lambda>e. \<not> is_console_error e) (fst (emit run during_await handlers event)) =
           group_events (map_get handlers (ev_event event)) @
           (if group_stalls run event 0 (map_get handlers (ev_event event)) then []
            else group_events (map_get (registry_at_wildcard run during_await handlers event) Wildcard)) \<and>
         fst (snd (emit run during_await handlers event)) =
           (if group_stalls run event 0 (map_get handlers (ev_event event)) then NeverSettles
            else if group_stalls run event
                      (case map_get handlers (ev_event event) of None \<Rightarrow> 0 | Some hs \<Rightarrow> length hs)
                      (map_get (registry_at_wildcard run during_await handlers event) Wildcard)
                 then NeverSettles
            else Resolved)"
proof (cases "map_get handlers (ev_event event)")
  case None
  then show ?thesis
    using emit_wildcard_no_throw[where run=run and event=event and handlers=handlers and k=0
        and during_await=during_await, OF assms]
    by (simp add: emit_def group_events_def group_stalls_def registry_at_wildcard_def)
next
  case (Some hs)
  let ?reg = "apply_ops (during_await 0) (launch_registry run event 0 hs handlers)"
  have reg: "registry_at_wildcard run during_await handlers event = ?reg"
    by (simp add: registry_at_wildcard_def Some)
  show ?thesis
  proof (cases "Pending \<in> set (promises run event 0 hs)")
    case True
    then show ?thesis
      by (simp add: emit_def Some dispatch_group_no_throw[where run=run and event=event, OF assms]
          group_events_def group_stalls_def filter_rejection_logs filter_launches)
  next
    case False
    then show ?thesis
      using emit_wildcard_no_throw[where run=run and event=event and handlers="?reg"
          and k="length hs" and during_await=during_await, OF assms]
      by (auto simp add: emit_def Some reg
          dispatch_group_no_throw[where run=run and event=event, OF assms]
          group_events_def group_stalls_def filter_rejection_logs filter_launches split: prod.splits)
  qed
qed

lemma apply_ops_nil: "apply_ops [] handlers = handlers"
  by (simp add: apply_ops_def)

lemma launch_registry_untouched:
  assumes "\<forall>k h. snd (run k h event) = []"
  shows "launch_registry run event k hs handlers = handlers"
  using assms by (induction hs arbitrary: k) (simp_all add: apply_ops_nil)

lemma registry_at_wildcard_untouched:
  assumes "registry_untouched run during_await event"
  shows "registry_at_wildcard run during_await handlers event = handlers"
  using assms
  by (cases "map_get handlers (ev_event event)")
     (simp_all add: registry_at_wildcard_def registry_untouched_def launch_registry_untouched
       apply_ops_nil)

lemma run_ops_eval:
  "run_ops [On ExecutionCompleted 7, On Wildcard 9] = [(ExecutionCompleted, [7]), (Wildcard, [9])]"
  "run_ops [On ExecutionCompleted 7, On Wildcard 7] = [(ExecutionCompleted, [7]), (Wildcard, [7])]"
  "run_ops [On ExecutionCompleted 7, On ExecutionCompleted 8, On Wildcard 9] =
     [(ExecutionCompleted, [7, 8]), (Wildcard, [9])]"
  "run_ops [On Wildcard 7, On ExecutionCompleted 8] = [(Wildcard, [7]), (ExecutionCompleted, [8])]"
  "run_ops [On Wildcard 7] = [(Wildcard, [7])]"
  by (simp_all add: run_ops_def apply_ops_def on_def map_get_def map_set_def set_add_def)

lemma quiet_untouched: "registry_untouched (quiet f) no_interference event"
  by (simp add: registry_untouched_def quiet_def no_interference_def)

lemma quiet_registry:
  "registry_at_wildcard (quiet f) no_interference handlers event = handlers"
  by (rule registry_at_wildcard_untouched) (rule quiet_untouched)

text \<open>
  C7, as amended: within one \<open>emit\<close>, the handlers registered under the event's own type
  are all launched before that group is awaited, and the wildcard handlers (those the
  registry holds when that await ends) are launched only after it, once every promise of
  the first group has settled (never, if one of them stays pending); the wildcard
  handlers are in turn all launched before their group is awaited. Stated for handlers
  that do not throw before returning.
\<close>

theorem emit_groups_in_sequence:
  assumes "\<forall>k h. \<not> throws (fst (run k h event))"
    and "map_get handlers (ev_event event) = Some hs"
    and "map_get (registry_at_wildcard run during_await handlers event) Wildcard = Some ws"
  shows "filter (\<lambda>e. \<not> is_console_error e) (fst (emit run during_await handlers event)) =
           map Invoke hs @ [AwaitAll hs] @
           (if Pending \<in> set (promises run event 0 hs) then [] else map Invoke ws @ [AwaitAll ws]) \<and>
         (registry_untouched run during_await event \<longrightarrow>
            registry_at_wildcard run during_await handlers event = handlers)"
  using emit_no_throw[where run=run and event=event and handlers=handlers
      and during_await=during_await, OF assms(1)] assms(2,3)
  by (simp add: group_events_def group_stalls_def registry_at_wildcard_untouched)

theorem emit_groups_in_sequence_witness:
  "filter (\<lambda>e. \<not> is_console_error e)
     (fst (emit (quiet (\<lambda>k h e. Returns)) no_interference
             (run_ops [On ExecutionCompleted 7, On Wildcard 9]) (test_event ExecutionCompleted))) =
   [Invoke 7, AwaitAll [7], Invoke 9, AwaitAll [9]]"
  using emit_groups_in_sequence[where run="quiet (\<lambda>k h e. Returns)"
      and during_await=no_interference
      and handlers="run_ops [On ExecutionCompleted 7, On Wildcard 9]"
      and event="test_event ExecutionCompleted" and hs="[7]" and ws="[9]"]
  by (simp add: quiet_registry run_ops_eval map_get_def test_event_def throws_def promise_of_def
      quiet_def)

text \<open>
  The claim as stated fails: with one handler under the event's type and one under the
  wildcard, the wildcard handler is launched after the first group has been awaited.
\<close>

theorem emit_wildcard_after_await_counterexample:
  "\<not> all_launched_before_awaited
       (fst (emit (quiet (\<lambda>k h e. Returns)) no_interference
               (run_ops [On ExecutionCompleted 7, On Wildcard 9]) (test_event ExecutionCompleted)))"
  by (simp add: run_ops_eval emit_def emit_wildcard_def dispatch_group_def map_get_def
      test_event_def rejection_logs_def all_launched_before_awaited_def is_await_def is_invoke_def
      quiet_def no_interference_def apply_ops_nil)

text \<open>
  C6: a handler that throws before returning is not isolated. Its exception leaves the
  \<open>map\<close> callback before \<open>Promise.resolve(...).catch(...)\<close> is reached: \<open>emit\<close> rejects with
  it, the handlers after it (here the second one of the group and the wildcard one) are
  never called, and nothing is logged.
\<close>

theorem emit_sync_throw_aborts:
  "emit (quiet (\<lambda>k h e. if h = 7 then Throws ''Handler error'' else Returns)) no_interference
     (run_ops [On ExecutionCompleted 7, On ExecutionCompleted 8, On Wildcard 9])
     (test_event ExecutionCompleted) =
   ([Invoke 7], RejectedWith ''Handler error'',
    run_ops [On ExecutionCompleted 7, On ExecutionCompleted 8, On Wildcard 9])"
  by (simp add: run_ops_eval emit_def dispatch_group_def map_get_def test_event_def quiet_def
      apply_ops_nil rejection_logs_def)

text \<open>
  Handlers whose promise is rejected are isolated as intended: when every handler returns
  or returns a promise that settles, \<open>emit\<close> resolves and both groups run in full.
\<close>

lemma settles_facts:
  assumes "settles out"
  shows "\<not> throws out" and "promise_of out \<noteq> Pending"
  using assms
  by (auto simp add: settles_def throws_def promise_of_def
      split: handler_outcome.splits promise_state.splits)

lemma promises_settle:
  assumes "\<forall>k h. settles (fst (run k h event))"
  shows "Pending \<notin> set (promises run event k hs)"
proof (induction hs arbitrary: k)
  case Nil
  show ?case by simp
next
  case (Cons h hs)
  have "promise_of (fst (run k h event)) \<noteq> Pending"
    using assms settles_facts(2) by blast
  then show ?case using Cons by auto
qed

lemma emit_isolates_rejections:
  assumes "\<forall>k h. settles (fst (run k h event))"
  shows "fst (snd (emit run during_await handlers event)) = Resolved \<and>
         filter (\<lambda>e. \<not> is_console_error e) (fst (emit run during_await handlers event)) =
           group_events (map_get handlers (ev_event event)) @
           group_events (map_get (registry_at_wildcard run during_await handlers event) Wildcard)"
proof -
  have nt: "\<forall>k h. \<not> throws (fst (run k h event))"
    using assms settles_facts(1) by blast
  have ns: "\<not> group_stalls run event k g" for k g
    using promises_settle[where run=run and event=event, OF assms]
    by (cases g) (simp_all add: group_stalls_def)
  show ?thesis
    using emit_no_throw[where run=run and event=event and handlers=handlers
        and during_await=during_await, OF nt]
    by (simp add: ns)
qed

lemma registry_ok_launch_registry:
  "registry_ok handlers \<Longrightarrow> registry_ok (launch_registry run event k hs handlers)"
  by (induction hs arbitrary: k handlers) (simp_all add: registry_ok_apply_ops)

lemma registry_ok_at_wildcard:
  "registry_ok handlers \<Longrightarrow> registry_ok (registry_at_wildcard run during_await handlers event)"
  by (cases "map_get handlers (ev_event event)")
     (simp_all add: registry_at_wildcard_def registry_ok_apply_ops registry_ok_launch_registry)

lemma invocations_ignore_logs:
  "invocations (filter (\<lambda>e. \<not> is_console_error e) tr) h = invocations tr h"
  by (induction tr) (auto simp add: invocations_def is_console_error_def)

lemma invocations_append: "invocations (xs @ ys) h = invocations xs h + invocations ys h"
  by (simp add: invocations_def)

lemma invocations_launches:
  "distinct hs \<Longrightarrow> invocations (map Invoke hs) h = (if h \<in> set hs then 1 else 0)"
  by (induction hs) (auto simp add: invocations_def)

lemma invocations_group:
  assumes "registry_ok handlers"
  shows "invocations (group_events (map_get handlers t)) h = (if registered handlers t h then 1 else 0)"
proof (cases "map_get handlers t")
  case None
  then show ?thesis by (simp add: group_events_def registered_def invocations_def)
next
  case (Some hs)
  have "distinct hs" using registry_ok_entry[OF assms Some] by simp
  then show ?thesis
    using Some
    by (simp add: group_events_def registered_def invocations_append invocations_launches)
       (simp add: invocations_def)
qed

text \<open>
  C10, as amended: in one \<open>emit\<close>, a handler is called once if it is registered under the
  event's own type when \<open>emit\<close> starts, and once more if it is registered under the
  wildcard when the await of the first group ends. So, when the registry is not changed
  while \<open>emit\<close> runs, an event whose type is the wildcard itself calls every handler
  registered under the wildcard exactly twice, and an event of a concrete type calls a
  handler once when it is registered under that type only or under the wildcard only, and
  twice when it is registered under both. Stated for registries built by \<open>on\<close>/\<open>off\<close>
  and handlers that return or whose promise settles.
\<close>

theorem emit_invocation_counts:
  assumes "\<forall>k h. settles (fst (run k h event))"
  shows "invocations (fst (emit run during_await (run_ops ops) event)) h =
           (if registered (run_ops ops) (ev_event event) h then 1 else 0) +
           (if registered (registry_at_wildcard run during_await (run_ops ops) event) Wildcard h
            then 1 else 0) \<and>
         (registry_untouched run during_await event \<longrightarrow>
            invocations (fst (emit run during_await (run_ops ops) event)) h =
              (if registered (run_ops ops) (ev_event event) h then 1 else 0) +
              (if registered (run_ops ops) Wildcard h then 1 else 0)) \<and>
         (registry_untouched run during_await event \<and> ev_event event = Wildcard \<and>
          registered (run_ops ops) Wildcard h \<longrightarrow>
            invocations (fst (emit run during_await (run_ops ops) event)) h = 2)"
proof -
  let ?reg = "registry_at_wildcard run during_await (run_ops ops) event"
  have "invocations (fst (emit run during_await (run_ops ops) event)) h =
          invocations (filter (\<lambda>e. \<not> is_console_error e)
                         (fst (emit run during_await (run_ops ops) event))) h"
    by (simp add: invocations_ignore_logs)
  also have "\<dots> = invocations (group_events (map_get (run_ops ops) (ev_event event))) h +
                  invocations (group_events (map_get ?reg Wildcard)) h"
    using emit_isolates_rejections[where run=run and event=event and handlers="run_ops ops"
        and during_await=during_await, OF assms]
    by (simp add: invocations_append)
  also have "\<dots> = (if registered (run_ops ops) (ev_event event) h then 1 else 0) +
                  (if registered ?reg Wildcard h then 1 else 0)"
    by (simp add: invocations_group[OF registry_ok_run_ops]
        invocations_group[OF registry_ok_at_wildcard[OF registry_ok_run_ops]])
  finally have general: "invocations (fst (emit run during_await (run_ops ops) event)) h =
           (if registered (run_ops ops) (ev_event event) h then 1 else 0) +
           (if registered ?reg Wildcard h then 1 else 0)" .
  show ?thesis
    using general by (auto simp add: registry_at_wildcard_untouched)
qed

theorem emit_invocation_counts_witness:
  "invocations (fst (emit (quiet (\<lambda>k h e. Returns)) no_interference
                      (run_ops [On Wildcard 7, On ExecutionCompleted 8]) (test_event Wildcard))) 7 = 2 \<and>
   invocations (fst (emit (quiet (\<lambda>k h e. Returns)) no_interference
                      (run_ops [On Wildcard 7, On ExecutionCompleted 8])
                      (test_event ExecutionCompleted))) 7 = 1 \<and>
   invocations (fst (emit (quiet (\<lambda>k h e. Returns)) no_interference
                      (run_ops [On Wildcard 7, On ExecutionCompleted 8])
                      (test_event ExecutionCompleted))) 8 = 1 \<and>
   invocations (fst (emit unregisters_itself no_interference (run_ops [On Wildcard 7])
                      (test_event Wildcard))) 7 = 1"
proof -
  have type: "ev_event (test_event t) = t" for t
    by (simp add: test_event_def)
  have gone: "registry_at_wildcard unregisters_itself no_interference [(Wildcard, [7])]
                (test_event Wildcard) = []"
    by (simp add: registry_at_wildcard_def unregisters_itself_def no_interference_def type
        map_get_def apply_ops_def off_def map_set_def map_delete_def set_delete_def)
  have calm: "settles (fst (quiet (\<lambda>k h e. Returns) k h event))"
    "settles (fst (unregisters_itself k h event))" for k h event
    by (simp_all add: settles_def quiet_def unregisters_itself_def)
  show ?thesis
    using emit_invocation_counts[where run="quiet (\<lambda>k h e. Returns)" and during_await=no_interference
        and event="test_event Wildcard" and ops="[On Wildcard 7, On ExecutionCompleted 8]" and h=7]
      emit_invocation_counts[where run="quiet (\<lambda>k h e. Returns)" and during_await=no_interference
        and event="test_event ExecutionCompleted" and ops="[On Wildcard 7, On ExecutionCompleted 8]"
        and h=7]
      emit_invocation_counts[where run="quiet (\<lambda>k h e. Returns)" and during_await=no_interference
        and event="test_event ExecutionCompleted" and ops="[On Wildcard 7, On ExecutionCompleted 8]"
        and h=8]
      emit_invocation_counts[where run=unregisters_itself and during_await=no_interference
        and event="test_event Wildcard" and ops="[On Wildcard 7]" and h=7]
    by (simp add: calm gone type quiet_untouched quiet_registry run_ops_eval registered_def
        map_get_def)
qed

text \<open>
  The claim as stated fails for a concrete event type: a handler registered under both
  the event's type and the wildcard is called twice.
\<close>

theorem emit_double_registration_counterexample:
  "ev_event (test_event ExecutionCompleted) \<noteq> Wildcard \<and>
   registered (run_ops [On ExecutionCompleted 7, On Wildcard 7]) ExecutionCompleted 7 \<and>
   invocations (fst (emit (quiet (\<lambda>k h e. Returns)) no_interference
                      (run_ops [On ExecutionCompleted 7, On Wildcard 7])
                      (test_event ExecutionCompleted))) 7 = 2"
  by (simp add: run_ops_eval emit_def emit_wildcard_def dispatch_group_def map_get_def
      test_event_def rejection_logs_def registered_def invocations_def quiet_def
      no_interference_def apply_ops_nil)

end
